theory Spec2Isabelle
  imports Main "HOL-Library.AList"
begin

section \<open>Text values\<close>

text \<open>
  Python \<open>str\<close> values are modelled as \<^typ>\<open>string\<close>: a list of characters with code
  points 0..255 (Latin-1). On that range \<open>str.lower\<close> works character by character and
  stays inside the range, and \<open>str.isspace\<close>, the whitespace of \<open>str.strip()\<close>,
  \<open>str.split()\<close> and the regular expression class \<open>\s\<close> all denote the same twelve code points.

  A table cell is a \<^typ>\<open>string option\<close>: \<open>None\<close> is the missing value (\<open>NaN\<close>/\<open>None\<close>, the
  values \<open>pd.isna\<close> and \<open>fillna\<close> recognise) and \<open>Some s\<close> is a present value whose text
  conversion \<open>str(v)\<close> is \<open>s\<close>.
\<close>

type_synonym cell = "string option"

definition isspace :: "char \<Rightarrow> bool" where
  "isspace c = (let n = (of_char c :: nat) in
     (9 \<le> n \<and> n \<le> 13) \<or> (28 \<le> n \<and> n \<le> 32) \<or> n = 133 \<or> n = 160)"

definition lower_char :: "char \<Rightarrow> char" where
  "lower_char c = (let n = (of_char c :: nat) in
     if (65 \<le> n \<and> n \<le> 90) \<or> (192 \<le> n \<and> n \<le> 222 \<and> n \<noteq> 215)
     then char_of (n + 32) else c)"

definition lower :: "string \<Rightarrow> string" where
  "lower s = map lower_char s"

definition strip :: "string \<Rightarrow> string" where
  "strip s = rev (dropWhile isspace (rev (dropWhile isspace s)))"

text \<open>\<open>s.replace(char, " ")\<close> for a one-character \<open>char\<close>.\<close>

definition replace_char :: "char \<Rightarrow> string \<Rightarrow> string" where
  "replace_char ch s = map (\<lambda>x. if x = ch then CHR '' '' else x) s"

text \<open>\<open>re.sub(r"\s+", " ", s)\<close>: every maximal run of whitespace becomes one space.\<close>

function collapse_ws :: "string \<Rightarrow> string" where
  "collapse_ws [] = []"
| "collapse_ws (c # cs) =
     (if isspace c then CHR '' '' # collapse_ws (dropWhile isspace cs)
      else c # collapse_ws cs)"
  by pat_completeness auto
termination
  by (relation "measure length") (auto simp: length_dropWhile_le less_Suc_eq_le)

text \<open>\<open>s.split()\<close>: the maximal runs of non-whitespace characters, in order.\<close>

function split_ws :: "string \<Rightarrow> string list" where
  "split_ws [] = []"
| "split_ws (c # cs) =
     (if isspace c then split_ws cs
      else (c # takeWhile (\<lambda>x. \<not> isspace x) cs) # split_ws (dropWhile (\<lambda>x. \<not> isspace x) cs))"
  by pat_completeness auto
termination
  by (relation "measure length") (auto simp: length_dropWhile_le less_Suc_eq_le)

text \<open>\<open>" ".join(words)\<close>.\<close>

fun join_sp :: "string list \<Rightarrow> string" where
  "join_sp [] = []"
| "join_sp [w] = w"
| "join_sp (w # v # ws) = w @ CHR '' '' # join_sp (v # ws)"

section \<open>The model-name cleaner\<close>

definition punctuation_to_remove :: string where
  "punctuation_to_remove = ''.-_/()[]{}:''"

definition noise_terms :: "string list" where
  "noise_terms =
    [''notebook'', ''laptop'', ''gamer'', ''gaming'', ''kit'', ''bundle'', ''ordenador'',
     ''ultrabook'',
     ''acer'', ''dell'', ''hp'', ''lenovo'', ''asus'', ''msi'', ''apple'', ''microsoft'',
     ''samsung'', ''lg'', ''huawei'', ''razer'', ''alienware'']"

text \<open>The value of the local variable \<open>words\<close> of \<open>clean_model_name\<close> (steps 1 to 4 and the split).\<close>

definition model_words :: "string \<Rightarrow> string list" where
  "model_words s =
     split_ws (strip (collapse_ws (fold replace_char punctuation_to_remove (strip (lower s)))))"

definition clean_model_name :: "cell \<Rightarrow> string" where
  "clean_model_name model_name =
    (if model_name = None \<or> model_name = Some [] then []
     else
       let cleaned = lower (the model_name);
           cleaned = strip cleaned;
           cleaned = fold replace_char punctuation_to_remove cleaned;
           cleaned = strip (collapse_ws cleaned);
           words = split_ws cleaned;
           filtered_words = filter (\<lambda>w. w \<notin> set noise_terms) words
       in join_sp filtered_words)"

section \<open>Series and data frames\<close>

text \<open>
  A record is an ordered mapping from field names to cells; a field that a record does not
  hold reads as the missing value, as in a frame built from records. A data frame is its
  list of column labels and its records, indexed by position (the default \<open>RangeIndex\<close> of the
  frames that \<open>load_data\<close> builds, so that the labels of \<open>iterrows\<close> are the positions of
  \<open>iloc\<close>).
\<close>

type_synonym row = "(string \<times> cell) list"

record dataframe =
  columns :: "string list"
  rows :: "row list"

datatype error = KeyError string | IndexError

definition bind_err :: "error + 'a \<Rightarrow> ('a \<Rightarrow> error + 'b) \<Rightarrow> error + 'b" where
  "bind_err m f = (case m of Inl e \<Rightarrow> Inl e | Inr x \<Rightarrow> f x)"

definition cell_at :: "row \<Rightarrow> string \<Rightarrow> cell" where
  "cell_at r c = (case map_of r c of None \<Rightarrow> None | Some v \<Rightarrow> v)"

text \<open>\<open>df[c]\<close>: the column as a series, \<open>KeyError\<close> when the frame has no such column.\<close>

definition get_column :: "dataframe \<Rightarrow> string \<Rightarrow> error + cell list" where
  "get_column df c =
     (if c \<in> set (columns df) then Inr (map (\<lambda>r. cell_at r c) (rows df))
      else Inl (KeyError c))"

text \<open>\<open>df[c] = values\<close>: overwrites the column, or appends it when it is new.\<close>

definition set_column :: "dataframe \<Rightarrow> string \<Rightarrow> cell list \<Rightarrow> dataframe" where
  "set_column df c vs =
     \<lparr>columns = (if c \<in> set (columns df) then columns df else columns df @ [c]),
      rows = map (\<lambda>(r, v). AList.update c v r) (zip (rows df) vs)\<rparr>"

definition fillna :: "string \<Rightarrow> cell list \<Rightarrow> cell list" where
  "fillna fill s = map (\<lambda>v. case v of None \<Rightarrow> Some fill | Some x \<Rightarrow> Some x) s"

definition astype_str :: "cell list \<Rightarrow> string list" where
  "astype_str s = map (\<lambda>v. case v of None \<Rightarrow> ''nan'' | Some x \<Rightarrow> x) s"

definition str_strip :: "string list \<Rightarrow> string list" where
  "str_strip s = map strip s"

definition str_lower :: "string list \<Rightarrow> string list" where
  "str_lower s = map lower s"

text \<open>\<open>s.fillna("").astype(str).str.strip().str.lower()\<close>, the expression of every generic key.\<close>

definition normalize_series :: "cell list \<Rightarrow> cell list" where
  "normalize_series s = map Some (str_lower (str_strip (astype_str (fillna [] s))))"

text \<open>\<open>s.apply(clean_model_name)\<close>.\<close>

definition apply_clean_model_name :: "cell list \<Rightarrow> cell list" where
  "apply_clean_model_name s = map (\<lambda>v. Some (clean_model_name v)) s"

text \<open>
  Elementwise \<open>==\<close> of a series with a scalar: a missing value equals nothing, itself
  included.
\<close>

definition cell_eq :: "cell \<Rightarrow> cell \<Rightarrow> bool" where
  "cell_eq a b = (case a of None \<Rightarrow> False | Some x \<Rightarrow> (case b of None \<Rightarrow> False | Some y \<Rightarrow> x = y))"

text \<open>
  \<open>df.iloc[idxs]\<close>: the records at the given positions, in the order given, with the columns
  of \<open>df\<close>; a position outside the frame raises \<open>IndexError\<close>.
\<close>

definition iloc :: "dataframe \<Rightarrow> nat list \<Rightarrow> error + dataframe" where
  "iloc df idxs =
     (if list_all (\<lambda>i. i < length (rows df)) idxs
      then Inr \<lparr>columns = columns df, rows = map (\<lambda>i. rows df ! i) idxs\<rparr>
      else Inl IndexError)"

text \<open>\<open>df.iterrows()\<close>: the records with their positions.\<close>

definition iterrows :: "dataframe \<Rightarrow> (nat \<times> row) list" where
  "iterrows df = zip [0..<length (rows df)] (rows df)"

section \<open>The store of frame objects\<close>

text \<open>
  Frames are mutable objects: a variable holds a reference, \<open>df[c] = values\<close> changes the
  object in place, and \<open>df.copy()\<close> makes a new object. The store lists the objects; a reference
  is a position in it.
\<close>

type_synonym ref = nat
type_synonym store = "dataframe list"

definition alloc :: "dataframe \<Rightarrow> store \<Rightarrow> ref \<times> store" where
  "alloc df st = (length st, st @ [df])"

definition df_copy :: "ref \<Rightarrow> store \<Rightarrow> ref \<times> store" where
  "df_copy r st = alloc (st ! r) st"

definition assign_column :: "ref \<Rightarrow> string \<Rightarrow> cell list \<Rightarrow> store \<Rightarrow> store" where
  "assign_column r c vs st = st[r := set_column (st ! r) c vs]"

section \<open>Normalisation and matching\<close>

definition normalize_for_comparison :: "ref \<Rightarrow> bool \<Rightarrow> store \<Rightarrow> error + (ref \<times> store)" where
  "normalize_for_comparison df0 is_master st0 =
    (let (df, st) = df_copy df0 st0 in
     bind_err (get_column (st ! df) ''Region'') (\<lambda>s.
     let st = assign_column df ''region_norm'' (normalize_series s) st;
         country_col = (if is_master then ''Country/territory'' else ''Country'') in
     bind_err (get_column (st ! df) country_col) (\<lambda>s.
     let st = assign_column df ''country_norm'' (normalize_series s) st in
     bind_err (get_column (st ! df) ''Brand'') (\<lambda>s.
     let st = assign_column df ''brand_norm'' (normalize_series s) st in
     bind_err (get_column (st ! df) ''Model Name'') (\<lambda>s.
     let st = assign_column df ''model_clean'' (apply_clean_model_name s) st in
     bind_err (get_column (st ! df) ''CPU Model'') (\<lambda>s.
     let st = assign_column df ''cpu_norm'' (normalize_series s) st in
     bind_err (get_column (st ! df) ''GPU Model'') (\<lambda>s.
     let st = assign_column df ''gpu_norm'' (normalize_series s) st in
     bind_err (get_column (st ! df) ''Resolution'') (\<lambda>s.
     let st = assign_column df ''resolution_norm'' (normalize_series s) st in
     Inr (df, st)))))))))"

datatype classification = NEW | DUPLICATE

text \<open>
  The body of the loop of \<open>find_matches\<close> for one normalised candidate record: \<open>NEW\<close> where
  the code appends the index to \<open>new_rows_list\<close>, \<open>DUPLICATE\<close> where it appends it to
  \<open>duplicate_rows_list\<close>.
\<close>

definition match_row :: "row list \<Rightarrow> row \<Rightarrow> classification" where
  "match_row master_norm scraped_row =
    (let filtered_master = filter (\<lambda>m.
           cell_eq (cell_at m ''region_norm'') (cell_at scraped_row ''region_norm'')
         \<and> cell_eq (cell_at m ''country_norm'') (cell_at scraped_row ''country_norm'')
         \<and> cell_eq (cell_at m ''brand_norm'') (cell_at scraped_row ''brand_norm'')) master_norm
     in
     if length filtered_master = 0 then NEW
     else
       let model_matches = filter (\<lambda>m.
             cell_eq (cell_at m ''model_clean'') (cell_at scraped_row ''model_clean''))
             filtered_master
       in
       if length model_matches = 0 then NEW
       else
         let cpu_gpu_resolution_matches = filter (\<lambda>m.
               cell_eq (cell_at m ''cpu_norm'') (cell_at scraped_row ''cpu_norm'')
             \<and> cell_eq (cell_at m ''gpu_norm'') (cell_at scraped_row ''gpu_norm'')
             \<and> cell_eq (cell_at m ''resolution_norm'') (cell_at scraped_row ''resolution_norm''))
               model_matches
         in
         if length cpu_gpu_resolution_matches > 0 then DUPLICATE else NEW)"

fun match_loop ::
  "row list \<Rightarrow> (nat \<times> row) list \<Rightarrow> nat list \<times> nat list \<Rightarrow> nat list \<times> nat list" where
  "match_loop master_norm [] acc = acc"
| "match_loop master_norm ((idx, scraped_row) # rest) (new_rows_list, duplicate_rows_list) =
     (case match_row master_norm scraped_row of
        NEW \<Rightarrow> match_loop master_norm rest (new_rows_list @ [idx], duplicate_rows_list)
      | DUPLICATE \<Rightarrow> match_loop master_norm rest (new_rows_list, duplicate_rows_list @ [idx]))"

text \<open>
  \<open>find_matches\<close> up to the end of its loop: both frames are normalised (each with
  \<open>is_master=False\<close>) and every candidate index is put on one of the two lists.
\<close>

definition find_matches_indices ::
  "ref \<Rightarrow> ref \<Rightarrow> store \<Rightarrow> error + ((nat list \<times> nat list) \<times> store)" where
  "find_matches_indices scraped_df master_df st0 =
     bind_err (normalize_for_comparison scraped_df False st0) (\<lambda>(scraped_norm, st).
     bind_err (normalize_for_comparison master_df False st) (\<lambda>(master_norm, st).
     Inr (match_loop (rows (st ! master_norm)) (iterrows (st ! scraped_norm)) ([], []), st)))"

text \<open>
  \<open>find_matches\<close>: the loop, then the two output frames, taken from the original candidate
  frame by position and copied.
\<close>

definition find_matches :: "ref \<Rightarrow> ref \<Rightarrow> store \<Rightarrow> error + ((ref \<times> ref) \<times> store)" where
  "find_matches scraped_df master_df st0 =
     bind_err (find_matches_indices scraped_df master_df st0)
       (\<lambda>((new_rows_list, duplicate_rows_list), st).
     bind_err (iloc (st ! scraped_df) new_rows_list) (\<lambda>new_sel.
     let (new_rows, st) = alloc new_sel st in
     bind_err (iloc (st ! scraped_df) duplicate_rows_list) (\<lambda>dup_sel.
     let (duplicate_rows, st) = alloc dup_sel st in
     Inr ((new_rows, duplicate_rows), st))))"

section \<open>Notions used in the statements\<close>

subsection \<open>Text\<close>

text \<open>
  What the punctuation loop does to one character, and what steps 1 and 3 together do to
  one character.
\<close>

definition punct_to_space :: "char \<Rightarrow> char" where
  "punct_to_space c = (if c \<in> set punctuation_to_remove then CHR '' '' else c)"

definition canon_char :: "char \<Rightarrow> char" where
  "canon_char c = punct_to_space (lower_char c)"

text \<open>A token: a non-empty text without whitespace.\<close>

definition token_ok :: "string \<Rightarrow> bool" where
  "token_ok t = (t \<noteq> [] \<and> (\<forall>c\<in>set t. \<not> isspace c))"

text \<open>The value of the local variable \<open>filtered_words\<close> of \<open>clean_model_name\<close>.\<close>

definition kept_words :: "string \<Rightarrow> string list" where
  "kept_words s = filter (\<lambda>w. w \<notin> set noise_terms) (model_words s)"

subsection \<open>Keys\<close>

text \<open>
  The generic normaliser on one cell: what \<open>fillna("").astype(str).str.strip().str.lower()\<close>
  computes for each element of a series (lemma \<open>normalize_series_map\<close> below).
\<close>

definition norm_key :: "cell \<Rightarrow> string" where
  "norm_key v = lower (strip (case v of None \<Rightarrow> [] | Some x \<Rightarrow> x))"

text \<open>The source field of the country key (\<open>country_col\<close> in \<open>normalize_for_comparison\<close>).\<close>

definition country_col :: "bool \<Rightarrow> string" where
  "country_col is_master = (if is_master then ''Country/territory'' else ''Country'')"

text \<open>The columns that \<open>normalize_for_comparison\<close> reads, in the order it reads them.\<close>

definition required_columns :: "bool \<Rightarrow> string list" where
  "required_columns is_master =
     [''Region'', country_col is_master, ''Brand'', ''Model Name'', ''CPU Model'', ''GPU Model'',
      ''Resolution'']"

text \<open>Each field that is read, with the derived column that holds its key.\<close>

definition key_fields :: "bool \<Rightarrow> (string \<times> string) list" where
  "key_fields is_master =
     [(''Region'', ''region_norm''), (country_col is_master, ''country_norm''),
      (''Brand'', ''brand_norm''), (''Model Name'', ''model_clean''),
      (''CPU Model'', ''cpu_norm''), (''GPU Model'', ''gpu_norm''),
      (''Resolution'', ''resolution_norm'')]"

text \<open>
  The seven canonical keys of a record, as functions of its original fields. The country key
  depends on the field the caller's flag selects.
\<close>

definition region_key :: "row \<Rightarrow> string" where
  "region_key r = norm_key (cell_at r ''Region'')"

definition country_key :: "bool \<Rightarrow> row \<Rightarrow> string" where
  "country_key is_master r = norm_key (cell_at r (country_col is_master))"

definition brand_key :: "row \<Rightarrow> string" where
  "brand_key r = norm_key (cell_at r ''Brand'')"

definition model_key :: "row \<Rightarrow> string" where
  "model_key r = clean_model_name (cell_at r ''Model Name'')"

definition cpu_key :: "row \<Rightarrow> string" where
  "cpu_key r = norm_key (cell_at r ''CPU Model'')"

definition gpu_key :: "row \<Rightarrow> string" where
  "gpu_key r = norm_key (cell_at r ''GPU Model'')"

definition resolution_key :: "row \<Rightarrow> string" where
  "resolution_key r = norm_key (cell_at r ''Resolution'')"

subsection \<open>The normalised copy in closed form\<close>

text \<open>
  One column assignment with values computed record by record, the frame that the seven
  assignments of \<open>normalize_for_comparison\<close> build, and one record of it. That the code
  computes exactly this frame is lemma \<open>normalize_for_comparison_closed\<close> below.
\<close>

definition add_key :: "string \<Rightarrow> (row \<Rightarrow> string) \<Rightarrow> dataframe \<Rightarrow> dataframe" where
  "add_key n g D =
     \<lparr>columns = (if n \<in> set (columns D) then columns D else columns D @ [n]),
      rows = map (\<lambda>r. AList.update n (Some (g r)) r) (rows D)\<rparr>"

definition normalized :: "bool \<Rightarrow> dataframe \<Rightarrow> dataframe" where
  "normalized is_master D =
     add_key ''resolution_norm'' (\<lambda>r. norm_key (cell_at r ''Resolution''))
    (add_key ''gpu_norm'' (\<lambda>r. norm_key (cell_at r ''GPU Model''))
    (add_key ''cpu_norm'' (\<lambda>r. norm_key (cell_at r ''CPU Model''))
    (add_key ''model_clean'' (\<lambda>r. clean_model_name (cell_at r ''Model Name''))
    (add_key ''brand_norm'' (\<lambda>r. norm_key (cell_at r ''Brand''))
    (add_key ''country_norm'' (\<lambda>r. norm_key (cell_at r (country_col is_master)))
    (add_key ''region_norm'' (\<lambda>r. norm_key (cell_at r ''Region'')) D))))))"

definition norm_row :: "bool \<Rightarrow> row \<Rightarrow> row" where
  "norm_row is_master r =
     AList.update ''resolution_norm'' (Some (resolution_key r))
    (AList.update ''gpu_norm'' (Some (gpu_key r))
    (AList.update ''cpu_norm'' (Some (cpu_key r))
    (AList.update ''model_clean'' (Some (model_key r))
    (AList.update ''brand_norm'' (Some (brand_key r))
    (AList.update ''country_norm'' (Some (country_key is_master r))
    (AList.update ''region_norm'' (Some (region_key r)) r))))))"

subsection \<open>The three stages as the specification words them\<close>

text \<open>
  Agreement of a master record \<open>m\<close> with a candidate \<open>c\<close> at each stage, on the keys the
  matcher computes (\<open>find_matches\<close> normalises both frames with \<open>is_master=False\<close>), and the
  classification of a candidate against the master records: new when no master record agrees
  on region, country and brand; otherwise new when none of those agrees on the model;
  otherwise duplicate if and only if one of the model-matched records agrees on CPU, GPU and
  resolution too.
\<close>

definition agree_rcb :: "row \<Rightarrow> row \<Rightarrow> bool" where
  "agree_rcb m c = (region_key m = region_key c \<and> country_key False m = country_key False c
      \<and> brand_key m = brand_key c)"

definition agree_model :: "row \<Rightarrow> row \<Rightarrow> bool" where
  "agree_model m c = (model_key m = model_key c)"

definition agree_specs :: "row \<Rightarrow> row \<Rightarrow> bool" where
  "agree_specs m c = (cpu_key m = cpu_key c \<and> gpu_key m = gpu_key c
      \<and> resolution_key m = resolution_key c)"

definition spec_classification :: "row \<Rightarrow> row list \<Rightarrow> classification" where
  "spec_classification c M =
     (if \<not> list_ex (\<lambda>m. agree_rcb m c) M then NEW
      else if \<not> list_ex (\<lambda>m. agree_rcb m c \<and> agree_model m c) M then NEW
      else if list_ex (\<lambda>m. agree_rcb m c \<and> agree_model m c \<and> agree_specs m c) M then DUPLICATE
      else NEW)"

text \<open>
  The positions of the candidates of one class, in increasing order, and the frame of the
  original candidate records at those positions.
\<close>

definition class_indices :: "classification \<Rightarrow> row list \<Rightarrow> row list \<Rightarrow> nat list" where
  "class_indices k C M = filter (\<lambda>i. spec_classification (C ! i) M = k) [0..<length C]"

definition selection :: "classification \<Rightarrow> dataframe \<Rightarrow> dataframe \<Rightarrow> dataframe" where
  "selection k DC DM =
     \<lparr>columns = columns DC,
      rows = map (\<lambda>i. rows DC ! i) (class_indices k (rows DC) (rows DM))\<rparr>"

section \<open>Example frames\<close>

text \<open>
  Three candidates against one master record. The master record is the first candidate up
  to case, surrounding whitespace and punctuation; the second candidate differs from it in the
  CPU only, the third in the region. The master frame also has a \<open>Country/territory\<close> column,
  with a value that differs from its \<open>Country\<close>.
\<close>

definition ex_row :: "string \<Rightarrow> string \<Rightarrow> string \<Rightarrow> string \<Rightarrow> string \<Rightarrow> string \<Rightarrow> string \<Rightarrow> row" where
  "ex_row region country brand model cpu gpu resolution =
     [(''Region'', Some region), (''Country'', Some country), (''Brand'', Some brand),
      (''Model Name'', Some model), (''CPU Model'', Some cpu), (''GPU Model'', Some gpu),
      (''Resolution'', Some resolution)]"

definition ex_columns :: "string list" where
  "ex_columns = [''Region'', ''Country'', ''Brand'', ''Model Name'', ''CPU Model'', ''GPU Model'',
     ''Resolution'']"

definition ex_candidates :: dataframe where
  "ex_candidates = \<lparr>columns = ex_columns, rows =
     [ex_row ''EU'' ''DE'' ''Acer'' ''ASPIRE-5'' ''i5'' ''RTX'' ''FHD'',
      ex_row ''EU'' ''DE'' ''Acer'' ''ASPIRE-5'' ''i7'' ''RTX'' ''FHD'',
      ex_row ''US'' ''DE'' ''Acer'' ''ASPIRE-5'' ''i5'' ''RTX'' ''FHD'']\<rparr>"

definition ex_master :: dataframe where
  "ex_master = \<lparr>columns = ''Country/territory'' # ex_columns, rows =
     [(''Country/territory'', Some ''Germany'')
        # ex_row ''eu '' ''de'' ''acer'' ''Acer aspire 5'' ''I5'' ''rtx'' ''fhd'']\<rparr>"

definition ex_store :: store where
  "ex_store = [ex_candidates, ex_master]"

text \<open>A master frame with a \<open>Country/territory\<close> column and no \<open>Country\<close> column.\<close>

definition ex_master_territory :: dataframe where
  "ex_master_territory = \<lparr>columns =
     [''Region'', ''Country/territory'', ''Brand'', ''Model Name'', ''CPU Model'', ''GPU Model'',
      ''Resolution''],
     rows = [[(''Region'', Some ''EU''), (''Country/territory'', Some ''DE''),
       (''Brand'', Some ''Acer''), (''Model Name'', Some ''Aspire 5''), (''CPU Model'', Some ''i5''),
       (''GPU Model'', Some ''RTX''), (''Resolution'', Some ''FHD'')]]\<rparr>"

text \<open>A frame with all the columns and one record whose cells are missing or empty.\<close>

definition ex_empty_cells :: dataframe where
  "ex_empty_cells = \<lparr>columns = ex_columns, rows =
     [[(''Region'', None), (''Country'', Some []), (''Brand'', None), (''Model Name'', None),
       (''CPU Model'', None), (''GPU Model'', Some []), (''Resolution'', None)]]\<rparr>"

text \<open>A frame without a \<open>CPU Model\<close> column: its records have no such field.\<close>

definition ex_no_cpu :: dataframe where
  "ex_no_cpu = \<lparr>columns =
     [''Region'', ''Country'', ''Brand'', ''Model Name'', ''GPU Model'', ''Resolution''],
     rows = [[(''Region'', Some ''EU''), (''Country'', Some ''DE''), (''Brand'', Some ''Acer''),
       (''Model Name'', Some ''Aspire 5''), (''GPU Model'', Some ''RTX''),
       (''Resolution'', Some ''FHD'')]]\<rparr>"

section \<open>Lemmas on text\<close>

lemma lower_char_idem: "lower_char (lower_char c) = lower_char c"
  unfolding lower_char_def Let_def by auto

lemma isspace_lower_char: "isspace (lower_char c) = isspace c"
  unfolding lower_char_def isspace_def Let_def by auto

lemma isspace_space: "isspace CHR '' ''"
  by (simp add: isspace_def)

lemma lower_char_space: "lower_char CHR '' '' = CHR '' ''"
  by (simp add: lower_char_def)

lemma fold_replace_char:
  "fold replace_char cs s = map (\<lambda>x. if x \<in> set cs then CHR '' '' else x) s"
proof (induction cs arbitrary: s)
  case Nil
  show ?case by simp
next
  case (Cons c cs)
  have "fold replace_char (c # cs) s = fold replace_char cs (replace_char c s)" by simp
  also have "\<dots> = map (\<lambda>x. if x \<in> set cs then CHR '' '' else x) (replace_char c s)"
    by (rule Cons.IH)
  also have "\<dots> = map (\<lambda>x. if x \<in> set (c # cs) then CHR '' '' else x) s"
    by (auto simp: replace_char_def)
  finally show ?case .
qed

lemma remove_punct_map:
  "fold replace_char punctuation_to_remove s = map punct_to_space s"
  by (simp add: fold_replace_char punct_to_space_def)

lemma isspace_punct_to_space: "isspace c \<Longrightarrow> isspace (punct_to_space c)"
  by (simp add: punct_to_space_def isspace_space)

lemma split_ws_all_space: "\<forall>c\<in>set l. isspace c \<Longrightarrow> split_ws (l @ s) = split_ws s"
  by (induction l) auto

lemma split_ws_dropWhile: "split_ws (dropWhile isspace s) = split_ws s"
  by (induction s) auto

lemma takeWhile_append_ws:
  "\<forall>c\<in>set r. isspace c \<Longrightarrow> takeWhile (\<lambda>x. \<not> isspace x) (cs @ r) = takeWhile (\<lambda>x. \<not> isspace x) cs"
proof (induction cs)
  case Nil
  then show ?case by (cases r) auto
next
  case (Cons a cs)
  then show ?case by auto
qed

lemma dropWhile_append_ws:
  "\<forall>c\<in>set r. isspace c \<Longrightarrow> dropWhile (\<lambda>x. \<not> isspace x) (cs @ r) = dropWhile (\<lambda>x. \<not> isspace x) cs @ r"
proof (induction cs)
  case Nil
  then show ?case by (cases r) auto
next
  case (Cons a cs)
  then show ?case by auto
qed

lemma split_ws_trailing: "\<forall>c\<in>set r. isspace c \<Longrightarrow> split_ws (s @ r) = split_ws s"
proof (induction s rule: split_ws.induct)
  case 1
  then show ?case using split_ws_all_space [of r "[]"] by simp
next
  case (2 c cs)
  then show ?case by (simp add: takeWhile_append_ws dropWhile_append_ws)
qed

lemma strip_decomp:
  "\<exists>l r. s = l @ strip s @ r \<and> (\<forall>c\<in>set l. isspace c) \<and> (\<forall>c\<in>set r. isspace c)"
proof -
  let ?d = "dropWhile isspace s"
  have a: "s = takeWhile isspace s @ ?d" by simp
  have b: "?d = strip s @ rev (takeWhile isspace (rev ?d))"
  proof -
    have "rev (takeWhile isspace (rev ?d) @ dropWhile isspace (rev ?d)) = rev (rev ?d)"
      by (simp only: takeWhile_dropWhile_id)
    then have "rev (dropWhile isspace (rev ?d)) @ rev (takeWhile isspace (rev ?d)) = ?d"
      by (simp only: rev_append rev_rev_ident)
    then show ?thesis by (simp add: strip_def)
  qed
  have c: "\<forall>c\<in>set (takeWhile isspace s). isspace c" by (auto dest: set_takeWhileD)
  have d: "\<forall>c\<in>set (rev (takeWhile isspace (rev ?d))). isspace c" by (auto dest: set_takeWhileD)
  from a b have "s = takeWhile isspace s @ strip s @ rev (takeWhile isspace (rev ?d))" by simp
  with c d show ?thesis by blast
qed

lemma split_ws_map_strip:
  assumes "\<And>c. isspace c \<Longrightarrow> isspace (f c)"
  shows "split_ws (map f (strip s)) = split_ws (map f s)"
proof -
  obtain l r where s: "s = l @ strip s @ r" and l: "\<forall>c\<in>set l. isspace c" and r: "\<forall>c\<in>set r. isspace c"
    using strip_decomp by blast
  have "map f s = map f l @ map f (strip s) @ map f r" by (subst s) simp
  moreover have "\<forall>c\<in>set (map f l). isspace c" using l assms by auto
  moreover have "\<forall>c\<in>set (map f r). isspace c" using r assms by auto
  ultimately show ?thesis
    by (metis split_ws_all_space split_ws_trailing append_assoc)
qed

lemma split_ws_strip: "split_ws (strip s) = split_ws s"
  using split_ws_map_strip [of "\<lambda>c. c" s] by simp

lemma takeWhile_collapse_ws:
  "takeWhile (\<lambda>x. \<not> isspace x) (collapse_ws s) = takeWhile (\<lambda>x. \<not> isspace x) s"
  by (induction s rule: collapse_ws.induct) (auto simp: isspace_space)

lemma dropWhile_collapse_ws:
  "dropWhile (\<lambda>x. \<not> isspace x) (collapse_ws s) = collapse_ws (dropWhile (\<lambda>x. \<not> isspace x) s)"
  by (induction s rule: collapse_ws.induct) (auto simp: isspace_space)

lemma split_ws_collapse_ws: "split_ws (collapse_ws s) = split_ws s"
proof (induction "length s" arbitrary: s rule: less_induct)
  case less
  show ?case
  proof (cases s)
    case Nil
    then show ?thesis by simp
  next
    case (Cons c cs)
    show ?thesis
    proof (cases "isspace c")
      case True
      have "length (dropWhile isspace cs) < length s"
        using Cons by (simp add: length_dropWhile_le less_Suc_eq_le)
      then have "split_ws (collapse_ws (dropWhile isspace cs)) = split_ws (dropWhile isspace cs)"
        using less by blast
      then show ?thesis using Cons True by (simp add: isspace_space split_ws_dropWhile)
    next
      case False
      have "length (dropWhile (\<lambda>x. \<not> isspace x) cs) < length s"
        using Cons by (simp add: length_dropWhile_le less_Suc_eq_le)
      then have "split_ws (collapse_ws (dropWhile (\<lambda>x. \<not> isspace x) cs))
          = split_ws (dropWhile (\<lambda>x. \<not> isspace x) cs)"
        using less by blast
      then show ?thesis
        using Cons False by (simp add: takeWhile_collapse_ws dropWhile_collapse_ws)
    qed
  qed
qed

lemma model_words_eq: "model_words s = split_ws (map canon_char s)"
proof -
  have "model_words s = split_ws (map punct_to_space (strip (lower s)))"
    by (simp add: model_words_def split_ws_strip split_ws_collapse_ws remove_punct_map)
  also have "\<dots> = split_ws (map punct_to_space (lower s))"
    by (rule split_ws_map_strip) (rule isspace_punct_to_space)
  finally show ?thesis by (simp add: lower_def canon_char_def [abs_def] comp_def)
qed

lemma clean_model_name_words:
  "clean_model_name (Some s) = join_sp (filter (\<lambda>w. w \<notin> set noise_terms) (model_words s))"
proof (cases "s = []")
  case True
  then show ?thesis by (simp add: clean_model_name_def model_words_eq)
next
  case False
  then show ?thesis by (simp add: clean_model_name_def model_words_def Let_def)
qed

lemma split_ws_tokens: "t \<in> set (split_ws s) \<Longrightarrow> token_ok t \<and> set t \<subseteq> set s"
proof (induction s rule: split_ws.induct)
  case 1
  then show ?case by simp
next
  case (2 c cs)
  show ?case
  proof (cases "isspace c")
    case True
    with 2 show ?thesis by auto
  next
    case False
    show ?thesis
    proof (cases "t = c # takeWhile (\<lambda>x. \<not> isspace x) cs")
      case True
      then show ?thesis using False
        by (auto simp: token_ok_def dest: set_takeWhileD)
    next
      case neq: False
      with 2 False have "t \<in> set (split_ws (dropWhile (\<lambda>x. \<not> isspace x) cs))" by simp
      with 2 False have "token_ok t \<and> set t \<subseteq> set (dropWhile (\<lambda>x. \<not> isspace x) cs)" by blast
      then show ?thesis by (auto dest: set_dropWhileD)
    qed
  qed
qed

lemma split_ws_token: "token_ok w \<Longrightarrow> split_ws (w @ CHR '' '' # s) = w # split_ws s"
proof (cases w)
  case Nil
  assume "token_ok w"
  with Nil show ?thesis by (simp add: token_ok_def)
next
  case (Cons c cs)
  assume ok: "token_ok w"
  have cs: "\<forall>x\<in>set cs. \<not> isspace x" and c: "\<not> isspace c"
    using ok Cons by (auto simp: token_ok_def)
  have t: "takeWhile (\<lambda>x. \<not> isspace x) (cs @ CHR '' '' # s) = cs"
    using cs by (simp add: isspace_space)
  have d: "dropWhile (\<lambda>x. \<not> isspace x) (cs @ CHR '' '' # s) = CHR '' '' # s"
    using cs by (simp add: isspace_space)
  show ?thesis using Cons c by (simp add: t d isspace_space)
qed

lemma split_ws_single: "token_ok w \<Longrightarrow> split_ws w = [w]"
proof (cases w)
  case Nil
  assume "token_ok w"
  with Nil show ?thesis by (simp add: token_ok_def)
next
  case (Cons c cs)
  assume ok: "token_ok w"
  have cs: "\<forall>x\<in>set cs. \<not> isspace x" and c: "\<not> isspace c"
    using ok Cons by (auto simp: token_ok_def)
  have d: "dropWhile (\<lambda>x. \<not> isspace x) cs = []" using cs by simp
  show ?thesis using Cons c cs by (simp add: d)
qed

lemma split_ws_join_sp: "\<forall>t\<in>set ts. token_ok t \<Longrightarrow> split_ws (join_sp ts) = ts"
proof (induction ts rule: join_sp.induct)
  case 1
  show ?case by simp
next
  case (2 w)
  then show ?case by (simp add: split_ws_single)
next
  case (3 w v ws)
  then show ?case by (simp add: split_ws_token)
qed

lemma set_join_sp: "set (join_sp ts) \<subseteq> insert CHR '' '' (\<Union>t\<in>set ts. set t)"
  by (induction ts rule: join_sp.induct) auto

lemma join_sp_Nil_iff: "\<forall>t\<in>set ts. token_ok t \<Longrightarrow> join_sp ts = [] \<longleftrightarrow> ts = []"
  by (induction ts rule: join_sp.induct) (auto simp: token_ok_def)

lemma join_sp_ends:
  "\<forall>t\<in>set ts. token_ok t \<Longrightarrow> ts \<noteq> [] \<Longrightarrow>
     \<not> isspace (hd (join_sp ts)) \<and> \<not> isspace (last (join_sp ts))"
proof (induction ts rule: join_sp.induct)
  case 1
  then show ?case by simp
next
  case (2 w)
  then show ?case using hd_in_set [of w] last_in_set [of w] by (auto simp: token_ok_def)
next
  case (3 w v ws)
  have "join_sp (v # ws) \<noteq> []" using 3 join_sp_Nil_iff [of "v # ws"] by simp
  moreover have "w \<noteq> []" "\<not> isspace (hd w)" using 3 by (auto simp: token_ok_def)
  ultimately show ?case using 3 by simp
qed

lemma successively_token:
  "\<forall>c\<in>set t. \<not> isspace c \<Longrightarrow> successively (\<lambda>a b. \<not> (isspace a \<and> isspace b)) t"
  by (induction t rule: induct_list012) auto

lemma join_sp_no_double:
  "\<forall>t\<in>set ts. token_ok t \<Longrightarrow> successively (\<lambda>a b. \<not> (isspace a \<and> isspace b)) (join_sp ts)"
proof (induction ts rule: join_sp.induct)
  case 1
  show ?case by simp
next
  case (2 w)
  then have "\<forall>c\<in>set w. \<not> isspace c" by (simp add: token_ok_def)
  then have "successively (\<lambda>a b. \<not> (isspace a \<and> isspace b)) w" by (rule successively_token)
  then show ?case by (simp only: join_sp.simps)
next
  case (3 w v ws)
  have w: "w \<noteq> []" "\<not> isspace (last w)" "\<forall>c\<in>set w. \<not> isspace c"
    using 3 by (auto simp: token_ok_def)
  have r: "\<not> isspace (hd (join_sp (v # ws)))" "join_sp (v # ws) \<noteq> []"
    using 3 join_sp_ends [of "v # ws"] join_sp_Nil_iff [of "v # ws"] by auto
  have sw: "successively (\<lambda>a b. \<not> (isspace a \<and> isspace b)) w"
    using w(3) by (rule successively_token)
  have sr: "successively (\<lambda>a b. \<not> (isspace a \<and> isspace b)) (join_sp (v # ws))"
    using 3 by simp
  have "successively (\<lambda>a b. \<not> (isspace a \<and> isspace b)) (CHR '' '' # join_sp (v # ws))"
    by (subst successively_Cons) (use sr r in blast)
  then have "successively (\<lambda>a b. \<not> (isspace a \<and> isspace b)) (w @ CHR '' '' # join_sp (v # ws))"
    by (subst successively_append_iff) (use sw w in simp)
  then show ?case by (simp only: join_sp.simps)
qed

lemma strip_id: "s = [] \<or> (\<not> isspace (hd s) \<and> \<not> isspace (last s)) \<Longrightarrow> strip s = s"
proof (cases s)
  case Nil
  then show ?thesis by (simp add: strip_def)
next
  case (Cons c cs)
  assume "s = [] \<or> (\<not> isspace (hd s) \<and> \<not> isspace (last s))"
  with Cons have h: "\<not> isspace (hd s)" and l: "\<not> isspace (last s)" by auto
  have "dropWhile isspace s = s" using h Cons by simp
  moreover have "dropWhile isspace (rev s) = rev s"
  proof -
    have "rev s \<noteq> []" using Cons by simp
    moreover have "\<not> isspace (hd (rev s))" using l by (simp add: hd_rev)
    ultimately show ?thesis by (cases "rev s") auto
  qed
  ultimately show ?thesis by (simp add: strip_def)
qed

lemma canon_char_idem: "canon_char (canon_char c) = canon_char c"
  by (simp add: canon_char_def punct_to_space_def lower_char_idem lower_char_space)

lemma canon_char_space: "canon_char CHR '' '' = CHR '' ''"
  by (simp add: canon_char_def punct_to_space_def lower_char_space)

lemma model_words_tokens: "t \<in> set (model_words s) \<Longrightarrow> token_ok t \<and> (\<forall>c\<in>set t. canon_char c = c)"
proof -
  assume "t \<in> set (model_words s)"
  then have "token_ok t \<and> set t \<subseteq> set (map canon_char s)"
    unfolding model_words_eq by (rule split_ws_tokens)
  then show ?thesis by (auto simp: canon_char_idem)
qed

lemma model_words_join_sp:
  assumes "set ts \<subseteq> set (model_words s)"
  shows "model_words (join_sp ts) = ts"
proof -
  have ok: "\<forall>t\<in>set ts. token_ok t" and fx: "\<forall>t\<in>set ts. \<forall>c\<in>set t. canon_char c = c"
    using assms model_words_tokens by blast+
  have "\<forall>c\<in>set (join_sp ts). canon_char c = c"
    using set_join_sp [of ts] fx canon_char_space by auto
  then have "map canon_char (join_sp ts) = join_sp ts" by (simp add: map_idI)
  then show ?thesis using ok by (simp add: model_words_eq split_ws_join_sp)
qed

lemma clean_idem_Some:
  "clean_model_name (Some (clean_model_name (Some s))) = clean_model_name (Some s)"
proof -
  let ?ts = "filter (\<lambda>w. w \<notin> set noise_terms) (model_words s)"
  have "model_words (join_sp ?ts) = ?ts" by (rule model_words_join_sp) auto
  then show ?thesis by (simp add: clean_model_name_words)
qed

lemma clean_None: "clean_model_name None = []"
  by (simp add: clean_model_name_def)

lemma clean_empty: "clean_model_name (Some []) = []"
  by (simp add: clean_model_name_def)

lemma bind_err_Inr: "bind_err (Inr x) f = f x"
  by (simp add: bind_err_def)

lemma bind_err_Inl: "bind_err (Inl e) f = Inl e"
  by (simp add: bind_err_def)

lemma normalize_series_map: "normalize_series s = map (\<lambda>v. Some (norm_key v)) s"
  by (simp add: normalize_series_def str_lower_def str_strip_def astype_str_def fillna_def
      norm_key_def comp_def split: option.split)

lemma zip_map_same: "zip xs (map f xs) = map (\<lambda>x. (x, f x)) xs"
  by (induction xs) auto

lemma set_column_norm:
  "set_column D n (normalize_series (map (\<lambda>r. cell_at r c) (rows D)))
     = add_key n (\<lambda>r. norm_key (cell_at r c)) D"
  by (simp add: set_column_def add_key_def normalize_series_map zip_map_same comp_def)

lemma set_column_clean:
  "set_column D n (apply_clean_model_name (map (\<lambda>r. cell_at r c) (rows D)))
     = add_key n (\<lambda>r. clean_model_name (cell_at r c)) D"
  by (simp add: set_column_def add_key_def apply_clean_model_name_def zip_map_same comp_def)

lemma assign_column_last:
  "assign_column (length st) n vs (st @ [D]) = st @ [set_column D n vs]"
  by (simp add: assign_column_def)

lemma get_column_present:
  "c \<in> set (columns D) \<Longrightarrow> get_column D c = Inr (map (\<lambda>r. cell_at r c) (rows D))"
  by (simp add: get_column_def)

lemma get_column_absent: "c \<notin> set (columns D) \<Longrightarrow> get_column D c = Inl (KeyError c)"
  by (simp add: get_column_def)

lemma columns_add_key: "set (columns (add_key n g D)) = insert n (set (columns D))"
  by (auto simp: add_key_def)

lemma normalize_for_comparison_closed:
  assumes "set (required_columns is_master) \<subseteq> set (columns (st ! r))"
  shows "normalize_for_comparison r is_master st = Inr (length st, st @ [normalized is_master (st ! r)])"
proof -
  have c: "''Region'' \<in> set (columns (st ! r))" "country_col is_master \<in> set (columns (st ! r))"
    "''Brand'' \<in> set (columns (st ! r))" "''Model Name'' \<in> set (columns (st ! r))"
    "''CPU Model'' \<in> set (columns (st ! r))" "''GPU Model'' \<in> set (columns (st ! r))"
    "''Resolution'' \<in> set (columns (st ! r))"
    using assms by (simp_all add: required_columns_def)
  show ?thesis
    unfolding normalize_for_comparison_def df_copy_def alloc_def Let_def prod.case
      country_col_def [symmetric] normalized_def
    by (simp only: assign_column_last nth_append_length get_column_present bind_err_Inr
        set_column_norm set_column_clean columns_add_key insert_iff c simp_thms)
qed

lemma cell_at_update:
  "cell_at (AList.update k v r) c = (if c = k then v else cell_at r c)"
  by (simp add: cell_at_def update_conv')

lemma country_col_neq:
  "country_col b \<noteq> ''region_norm''" "country_col b \<noteq> ''country_norm''"
  by (simp_all add: country_col_def)

lemma rows_add_key: "rows (add_key n g D) = map (\<lambda>r. AList.update n (Some (g r)) r) (rows D)"
  by (simp add: add_key_def)

lemma rows_normalized: "rows (normalized b D) = map (norm_row b) (rows D)"
  unfolding normalized_def rows_add_key map_map comp_def
  by (simp add: cell_at_update country_col_neq norm_row_def region_key_def country_key_def
      brand_key_def model_key_def cpu_key_def gpu_key_def resolution_key_def)

lemma norm_row_keys:
  "cell_at (norm_row b r) ''region_norm'' = Some (region_key r)"
  "cell_at (norm_row b r) ''country_norm'' = Some (country_key b r)"
  "cell_at (norm_row b r) ''brand_norm'' = Some (brand_key r)"
  "cell_at (norm_row b r) ''model_clean'' = Some (model_key r)"
  "cell_at (norm_row b r) ''cpu_norm'' = Some (cpu_key r)"
  "cell_at (norm_row b r) ''gpu_norm'' = Some (gpu_key r)"
  "cell_at (norm_row b r) ''resolution_norm'' = Some (resolution_key r)"
  by (simp_all add: norm_row_def cell_at_update)

lemma cell_eq_Some: "cell_eq (Some x) (Some y) = (x = y)"
  by (simp add: cell_eq_def)

lemma filter_rcb:
  "filter (\<lambda>m. cell_eq (cell_at m ''region_norm'') (cell_at (norm_row False c) ''region_norm'')
         \<and> cell_eq (cell_at m ''country_norm'') (cell_at (norm_row False c) ''country_norm'')
         \<and> cell_eq (cell_at m ''brand_norm'') (cell_at (norm_row False c) ''brand_norm''))
     (map (norm_row False) xs) = map (norm_row False) (filter (\<lambda>m. agree_rcb m c) xs)"
  by (simp add: filter_map comp_def norm_row_keys cell_eq_Some agree_rcb_def)

lemma filter_model:
  "filter (\<lambda>m. cell_eq (cell_at m ''model_clean'') (cell_at (norm_row False c) ''model_clean''))
     (map (norm_row False) xs) = map (norm_row False) (filter (\<lambda>m. agree_model m c) xs)"
  by (simp add: filter_map comp_def norm_row_keys cell_eq_Some agree_model_def)

lemma filter_specs:
  "filter (\<lambda>m. cell_eq (cell_at m ''cpu_norm'') (cell_at (norm_row False c) ''cpu_norm'')
         \<and> cell_eq (cell_at m ''gpu_norm'') (cell_at (norm_row False c) ''gpu_norm'')
         \<and> cell_eq (cell_at m ''resolution_norm'') (cell_at (norm_row False c) ''resolution_norm''))
     (map (norm_row False) xs) = map (norm_row False) (filter (\<lambda>m. agree_specs m c) xs)"
  by (simp add: filter_map comp_def norm_row_keys cell_eq_Some agree_specs_def)

lemma match_row_spec:
  "match_row (map (norm_row False) M) (norm_row False c) = spec_classification c M"
proof -
  have "match_row (map (norm_row False) M) (norm_row False c) =
     (if length (filter (\<lambda>m. agree_rcb m c) M) = 0 then NEW
      else if length (filter (\<lambda>m. agree_model m c) (filter (\<lambda>m. agree_rcb m c) M)) = 0 then NEW
      else if length (filter (\<lambda>m. agree_specs m c)
             (filter (\<lambda>m. agree_model m c) (filter (\<lambda>m. agree_rcb m c) M))) > 0
      then DUPLICATE else NEW)"
    unfolding match_row_def Let_def filter_rcb filter_model filter_specs length_map ..
  also have "\<dots> = spec_classification c M"
    by (simp add: spec_classification_def list_ex_iff filter_empty_conv conj_commute conj_left_commute)
  finally show ?thesis .
qed

lemma match_loop_closed:
  "match_loop M xs (a, b)
     = (a @ map fst (filter (\<lambda>p. match_row M (snd p) = NEW) xs),
        b @ map fst (filter (\<lambda>p. match_row M (snd p) = DUPLICATE) xs))"
proof (induction xs arbitrary: a b)
  case Nil
  show ?case by simp
next
  case (Cons p xs)
  obtain i r where p: "p = (i, r)" by (cases p)
  show ?case unfolding p by (cases "match_row M r") (simp_all add: Cons.IH)
qed

lemma zip_upt_nth: "zip [0..<length xs] xs = map (\<lambda>i. (i, xs ! i)) [0..<length xs]"
  by (rule nth_equalityI) simp_all

lemma enum_filter:
  "map fst (filter (\<lambda>p. Q (snd p)) (zip [0..<length xs] xs)) = filter (\<lambda>i. Q (xs ! i)) [0..<length xs]"
  by (simp add: zip_upt_nth filter_map comp_def)

lemma match_loop_normalized:
  "match_loop (rows (normalized False DM)) (iterrows (normalized False DC)) ([], [])
     = (class_indices NEW (rows DC) (rows DM), class_indices DUPLICATE (rows DC) (rows DM))"
proof -
  let ?C = "map (norm_row False) (rows DC)"
  let ?M = "map (norm_row False) (rows DM)"
  have f: "filter (\<lambda>i. match_row ?M (?C ! i) = k) [0..<length ?C]
      = class_indices k (rows DC) (rows DM)" for k
    unfolding class_indices_def by (rule filter_cong) (simp_all add: match_row_spec)
  have e: "map fst (filter (\<lambda>p. match_row ?M (snd p) = k) (zip [0..<length ?C] ?C))
      = class_indices k (rows DC) (rows DM)" for k
    using enum_filter [of "\<lambda>r. match_row ?M r = k" ?C] f [of k] by simp
  show ?thesis
    by (simp only: match_loop_closed iterrows_def rows_normalized e append_Nil)
qed

lemma find_matches_indices_closed:
  assumes "md < length st"
    and "set (required_columns False) \<subseteq> set (columns (st ! sd))"
    and "set (required_columns False) \<subseteq> set (columns (st ! md))"
  shows "find_matches_indices sd md st =
     Inr ((class_indices NEW (rows (st ! sd)) (rows (st ! md)),
           class_indices DUPLICATE (rows (st ! sd)) (rows (st ! md))),
          st @ [normalized False (st ! sd), normalized False (st ! md)])"
proof -
  let ?st1 = "st @ [normalized False (st ! sd)]"
  have m: "?st1 ! md = st ! md" using assms(1) by (simp add: nth_append)
  have n1: "normalize_for_comparison sd False st = Inr (length st, ?st1)"
    using assms(2) by (rule normalize_for_comparison_closed)
  have n2: "normalize_for_comparison md False ?st1
      = Inr (length ?st1, ?st1 @ [normalized False (?st1 ! md)])"
    by (rule normalize_for_comparison_closed) (simp only: m assms(3))
  have a: "(?st1 @ [normalized False (st ! md)]) ! length ?st1 = normalized False (st ! md)"
    by (rule nth_append_length)
  have b: "(?st1 @ [normalized False (st ! md)]) ! length st = normalized False (st ! sd)"
    by (simp add: nth_append)
  show ?thesis
    unfolding find_matches_indices_def n1 bind_err_Inr prod.case n2 m a b match_loop_normalized
    by simp
qed

lemma punct_not_space: "c \<in> set punctuation_to_remove \<Longrightarrow> \<not> isspace c"
  by (auto simp: punctuation_to_remove_def isspace_def)

lemma lower_char_punct: "c \<in> set punctuation_to_remove \<Longrightarrow> lower_char c = c"
  by (auto simp: punctuation_to_remove_def lower_char_def)

lemma canon_char_punct: "p \<in> set punctuation_to_remove \<Longrightarrow> canon_char p = CHR '' ''"
  by (simp add: canon_char_def lower_char_punct punct_to_space_def)

lemma canon_char_not_punct: "\<not> isspace (canon_char c) \<Longrightarrow> canon_char c \<notin> set punctuation_to_remove"
  by (auto simp: canon_char_def punct_to_space_def isspace_space split: if_splits)

lemma model_words_no_punct:
  assumes "t \<in> set (model_words s)" and "c \<in> set t"
  shows "c \<notin> set punctuation_to_remove"
proof -
  from assms(1) have "token_ok t \<and> set t \<subseteq> set (map canon_char s)"
    unfolding model_words_eq by (rule split_ws_tokens)
  with assms(2) obtain c0 where "c = canon_char c0" and "\<not> isspace c"
    by (auto simp: token_ok_def)
  then show ?thesis using canon_char_not_punct by blast
qed

lemma space_not_punct: "CHR '' '' \<notin> set punctuation_to_remove"
  by (simp add: punctuation_to_remove_def)

lemma kept_words_ok: "t \<in> set (kept_words s) \<Longrightarrow> token_ok t"
  using model_words_tokens [of t s] by (simp add: kept_words_def)

lemma clean_model_name_kept: "clean_model_name (Some s) = join_sp (kept_words s)"
  by (simp add: clean_model_name_words kept_words_def)

lemma split_ws_clean: "split_ws (clean_model_name (Some s)) = kept_words s"
  unfolding clean_model_name_kept by (rule split_ws_join_sp) (simp add: kept_words_ok)

lemma clean_no_punct: "set (clean_model_name (Some s)) \<inter> set punctuation_to_remove = {}"
proof -
  have "c \<notin> set punctuation_to_remove" if "c \<in> set (join_sp (kept_words s))" for c
  proof -
    from that set_join_sp [of "kept_words s"]
    consider "c = CHR '' ''" | t where "t \<in> set (kept_words s)" "c \<in> set t" by auto
    then show ?thesis
    proof cases
      case 1
      then show ?thesis by (simp add: space_not_punct)
    next
      case 2
      then show ?thesis using model_words_no_punct [of t s c] by (simp add: kept_words_def)
    qed
  qed
  then show ?thesis unfolding clean_model_name_kept by blast
qed

lemma clean_ends:
  "clean_model_name (Some s) = [] \<or>
    (\<not> isspace (hd (clean_model_name (Some s))) \<and> \<not> isspace (last (clean_model_name (Some s))))"
proof (cases "kept_words s = []")
  case True
  then show ?thesis by (simp add: clean_model_name_kept)
next
  case False
  then show ?thesis
    unfolding clean_model_name_kept using join_sp_ends [of "kept_words s"] kept_words_ok by blast
qed

lemma clean_no_double:
  "successively (\<lambda>a b. \<not> (isspace a \<and> isspace b)) (clean_model_name (Some s))"
  unfolding clean_model_name_kept by (rule join_sp_no_double) (simp add: kept_words_ok)

lemma clean_punct_as_space:
  assumes "p \<in> set punctuation_to_remove"
  shows "clean_model_name (Some (a @ p # b)) = clean_model_name (Some (a @ CHR '' '' # b))"
  by (simp add: clean_model_name_words model_words_eq canon_char_punct [OF assms] canon_char_space)

section \<open>The model-name cleaner: claims\<close>

text \<open>
  C4. The model-name cleaner is idempotent: cleaning the text it returned gives that text
  again, for every cell \<open>x\<close> (missing, empty or any text).
\<close>

theorem clean_model_name_idempotent:
  "clean_model_name (Some (clean_model_name x)) = clean_model_name x"
proof (cases x)
  case None
  then show ?thesis by (simp add: clean_None clean_empty)
next
  case (Some s)
  then show ?thesis by (simp add: clean_idem_Some)
qed

theorem clean_model_name_idempotent_witness:
  "clean_model_name (Some ''Acer Aspire 5 A515-56'') = ''aspire 5 a515 56''
   \<and> clean_model_name (Some ''aspire 5 a515 56'') = ''aspire 5 a515 56''"
proof -
  have e: "clean_model_name (Some ''Acer Aspire 5 A515-56'') = ''aspire 5 a515 56''"
    by code_simp
  from clean_model_name_idempotent [of "Some ''Acer Aspire 5 A515-56''"]
  show ?thesis unfolding e by (simp add: e)
qed

text \<open>
  C5. Each character of the punctuation set \<open>. - _ / ( ) [ ] { } :\<close> is replaced by one space
  and not deleted: the replacement step maps every such character to a space and leaves
  every other character (and the length) as it is; a punctuation character anywhere in a
  model name gives the same result as a space at that place, so the tokens on its two sides
  stay apart; and \<open>clean_model_name("i7-12700H")\<close> is \<open>"i7 12700h"\<close>, not \<open>"i712700h"\<close>.
\<close>

theorem punctuation_replaced_by_space:
  "fold replace_char punctuation_to_remove s
      = map (\<lambda>c. if c \<in> set punctuation_to_remove then CHR '' '' else c) s
   \<and> (p \<in> set punctuation_to_remove \<longrightarrow>
        clean_model_name (Some (a @ p # b)) = clean_model_name (Some (a @ CHR '' '' # b)))
   \<and> clean_model_name (Some ''i7-12700H'') = ''i7 12700h''
   \<and> clean_model_name (Some ''i7-12700H'') \<noteq> ''i712700h''"
proof -
  have e: "clean_model_name (Some ''i7-12700H'') = ''i7 12700h''" by code_simp
  show ?thesis unfolding e
    by (simp add: fold_replace_char clean_punct_as_space)
qed

theorem punctuation_replaced_by_space_witness:
  "CHR ''-'' \<in> set punctuation_to_remove
   \<and> fold replace_char punctuation_to_remove ''i7-12700H'' = ''i7 12700H''
   \<and> clean_model_name (Some ''i7-12700H'') = clean_model_name (Some ''i7 12700H'')"
proof -
  have p: "CHR ''-'' \<in> set punctuation_to_remove" by (simp add: punctuation_to_remove_def)
  from punctuation_replaced_by_space [of "''i7-12700H''" "CHR ''-''" "''i7''" "''12700H''"] p
  show ?thesis by (simp add: punctuation_to_remove_def)
qed

text \<open>
  C6. The cleaner drops exactly the words that are equal to an entry of the noise vocabulary:
  the tokens of its result are the words of the normalised name that are not noise terms, in
  their order. The sub-brand words are not noise terms, and the tokens of
  \<open>clean_model_name("Acer Aspire 5 A515-56")\<close> are \<open>aspire\<close>, \<open>5\<close>, \<open>a515\<close>, \<open>56\<close>: of the
  five words of the name only \<open>acer\<close> is dropped.
\<close>

theorem noise_words_only_dropped:
  "split_ws (clean_model_name (Some s)) = filter (\<lambda>w. w \<notin> set noise_terms) (model_words s)
   \<and> set [''aspire'', ''nitro'', ''swift'', ''vostro'', ''latitude'', ''inspiron'']
        \<inter> set noise_terms = {}
   \<and> split_ws (clean_model_name (Some ''Acer Aspire 5 A515-56''))
        = [''aspire'', ''5'', ''a515'', ''56'']
   \<and> model_words ''Acer Aspire 5 A515-56'' = [''acer'', ''aspire'', ''5'', ''a515'', ''56'']"
proof -
  have 1: "split_ws (clean_model_name (Some s)) = filter (\<lambda>w. w \<notin> set noise_terms) (model_words s)"
    by (simp add: split_ws_clean kept_words_def)
  have 2: "set [''aspire'', ''nitro'', ''swift'', ''vostro'', ''latitude'', ''inspiron'']
        \<inter> set noise_terms = {}"
    by (simp add: noise_terms_def)
  have 3: "split_ws (clean_model_name (Some ''Acer Aspire 5 A515-56''))
        = [''aspire'', ''5'', ''a515'', ''56'']"
    by code_simp
  have 4: "model_words ''Acer Aspire 5 A515-56'' = [''acer'', ''aspire'', ''5'', ''a515'', ''56'']"
    by code_simp
  from 1 2 3 4 show ?thesis by blast
qed

theorem noise_words_only_dropped_witness:
  "''acer'' \<in> set (model_words ''Acer Aspire 5 A515-56'')
   \<and> ''acer'' \<notin> set (split_ws (clean_model_name (Some ''Acer Aspire 5 A515-56'')))
   \<and> ''aspire'' \<in> set (split_ws (clean_model_name (Some ''Acer Aspire 5 A515-56'')))
   \<and> ''aspire'' \<notin> set noise_terms"
proof -
  note n = noise_words_only_dropped [of "''Acer Aspire 5 A515-56''"]
  have w: "model_words ''Acer Aspire 5 A515-56'' = [''acer'', ''aspire'', ''5'', ''a515'', ''56'']"
    using n by blast
  have t: "split_ws (clean_model_name (Some ''Acer Aspire 5 A515-56''))
      = [''aspire'', ''5'', ''a515'', ''56'']"
    using n by blast
  have a: "''aspire'' \<notin> set noise_terms" using n by auto
  show ?thesis unfolding w t using a by simp
qed

text \<open>
  C10. The result of \<open>clean_model_name\<close> is in canonical form for every cell: it holds no
  character of the punctuation set, none of its tokens is a noise term, stripping it changes
  nothing (no leading or trailing whitespace), no two neighbouring characters are both
  spaces, and it is its own tokens joined by single spaces.
\<close>

theorem clean_model_name_canonical:
  "set (clean_model_name x) \<inter> set punctuation_to_remove = {}
   \<and> (\<forall>w\<in>set (split_ws (clean_model_name x)). w \<notin> set noise_terms)
   \<and> strip (clean_model_name x) = clean_model_name x
   \<and> successively (\<lambda>a b. \<not> (a = CHR '' '' \<and> b = CHR '' '')) (clean_model_name x)
   \<and> join_sp (split_ws (clean_model_name x)) = clean_model_name x"
proof (cases "x = None \<or> x = Some []")
  case True
  then have "clean_model_name x = []" by (auto simp: clean_None clean_empty)
  then show ?thesis by (simp add: strip_def)
next
  case False
  then obtain s where x: "x = Some s" by (cases x) auto
  have 1: "set (clean_model_name x) \<inter> set punctuation_to_remove = {}"
    unfolding x by (rule clean_no_punct)
  have 2: "\<forall>w\<in>set (split_ws (clean_model_name x)). w \<notin> set noise_terms"
    unfolding x split_ws_clean by (simp add: kept_words_def)
  have 3: "strip (clean_model_name x) = clean_model_name x"
    unfolding x by (rule strip_id) (rule clean_ends)
  have "successively (\<lambda>a b. \<not> (isspace a \<and> isspace b)) (clean_model_name x)"
    unfolding x by (rule clean_no_double)
  then have 4: "successively (\<lambda>a b. \<not> (a = CHR '' '' \<and> b = CHR '' '')) (clean_model_name x)"
    by (rule successively_mono) (use isspace_space in auto)
  have 5: "join_sp (split_ws (clean_model_name x)) = clean_model_name x"
    unfolding x split_ws_clean by (simp add: clean_model_name_kept)
  from 1 2 3 4 5 show ?thesis by blast
qed

theorem clean_model_name_canonical_witness:
  "set ''x1 pro'' \<inter> set punctuation_to_remove = {}
   \<and> ''x1'' \<notin> set noise_terms \<and> ''pro'' \<notin> set noise_terms
   \<and> strip ''x1 pro'' = ''x1 pro''
   \<and> successively (\<lambda>a b. \<not> (a = CHR '' '' \<and> b = CHR '' '')) ''x1 pro''
   \<and> join_sp [''x1'', ''pro''] = ''x1 pro''"
proof -
  have e: "clean_model_name (Some '' Lenovo  X1_(Pro) '') = ''x1 pro''" by code_simp
  have t: "split_ws ''x1 pro'' = [''x1'', ''pro'']" by code_simp
  from clean_model_name_canonical [of "Some '' Lenovo  X1_(Pro) ''"]
  show ?thesis unfolding e t by simp
qed

section \<open>The matcher: closed forms\<close>

lemma class_indices_bound: "i \<in> set (class_indices k C M) \<Longrightarrow> i < length C"
  by (simp add: class_indices_def)

lemma iloc_class_indices:
  "iloc DC (class_indices k (rows DC) (rows DM)) = Inr (selection k DC DM)"
  by (simp add: iloc_def selection_def list_all_iff class_indices_bound)

lemma find_matches_closed:
  assumes "sd < length st" and "md < length st"
    and "set (required_columns False) \<subseteq> set (columns (st ! sd))"
    and "set (required_columns False) \<subseteq> set (columns (st ! md))"
  shows "find_matches sd md st =
     Inr ((length st + 2, length st + 3),
          st @ [normalized False (st ! sd), normalized False (st ! md),
                selection NEW (st ! sd) (st ! md), selection DUPLICATE (st ! sd) (st ! md)])"
proof -
  let ?st2 = "st @ [normalized False (st ! sd), normalized False (st ! md)]"
  have a: "?st2 ! sd = st ! sd" using assms(1) by (simp add: nth_append)
  have b: "(?st2 @ [x]) ! sd = st ! sd" for x using assms(1) by (simp add: nth_append)
  show ?thesis
    unfolding find_matches_def find_matches_indices_closed [OF assms(2,3,4)] bind_err_Inr
      prod.case a iloc_class_indices alloc_def Let_def b
    by simp
qed

lemma normalize_for_comparison_KeyError:
  assumes "\<not> set (required_columns b) \<subseteq> set (columns (st ! r))"
  shows "\<exists>c. normalize_for_comparison r b st = Inl (KeyError c)"
proof -
  let ?D = "st ! r"
  note rules = assign_column_last nth_append_length get_column_present get_column_absent
    bind_err_Inr bind_err_Inl set_column_norm set_column_clean columns_add_key
  consider
      (1) "''Region'' \<notin> set (columns ?D)"
    | (2) "''Region'' \<in> set (columns ?D)" "country_col b \<notin> set (columns ?D)"
    | (3) "''Region'' \<in> set (columns ?D)" "country_col b \<in> set (columns ?D)"
          "''Brand'' \<notin> set (columns ?D)"
    | (4) "''Region'' \<in> set (columns ?D)" "country_col b \<in> set (columns ?D)"
          "''Brand'' \<in> set (columns ?D)" "''Model Name'' \<notin> set (columns ?D)"
    | (5) "''Region'' \<in> set (columns ?D)" "country_col b \<in> set (columns ?D)"
          "''Brand'' \<in> set (columns ?D)" "''Model Name'' \<in> set (columns ?D)"
          "''CPU Model'' \<notin> set (columns ?D)"
    | (6) "''Region'' \<in> set (columns ?D)" "country_col b \<in> set (columns ?D)"
          "''Brand'' \<in> set (columns ?D)" "''Model Name'' \<in> set (columns ?D)"
          "''CPU Model'' \<in> set (columns ?D)" "''GPU Model'' \<notin> set (columns ?D)"
    | (7) "''Region'' \<in> set (columns ?D)" "country_col b \<in> set (columns ?D)"
          "''Brand'' \<in> set (columns ?D)" "''Model Name'' \<in> set (columns ?D)"
          "''CPU Model'' \<in> set (columns ?D)" "''GPU Model'' \<in> set (columns ?D)"
          "''Resolution'' \<notin> set (columns ?D)"
    using assms by (auto simp: required_columns_def)
  then show ?thesis
  proof cases
    case 1
    then show ?thesis
      unfolding normalize_for_comparison_def df_copy_def alloc_def Let_def prod.case
        country_col_def [symmetric]
      by (simp add: rules)
  next
    case 2
    then show ?thesis
      unfolding normalize_for_comparison_def df_copy_def alloc_def Let_def prod.case
        country_col_def [symmetric]
      by (simp add: rules country_col_neq)
  next
    case 3
    then show ?thesis
      unfolding normalize_for_comparison_def df_copy_def alloc_def Let_def prod.case
        country_col_def [symmetric]
      by (simp add: rules)
  next
    case 4
    then show ?thesis
      unfolding normalize_for_comparison_def df_copy_def alloc_def Let_def prod.case
        country_col_def [symmetric]
      by (simp add: rules)
  next
    case 5
    then show ?thesis
      unfolding normalize_for_comparison_def df_copy_def alloc_def Let_def prod.case
        country_col_def [symmetric]
      by (simp add: rules)
  next
    case 6
    then show ?thesis
      unfolding normalize_for_comparison_def df_copy_def alloc_def Let_def prod.case
        country_col_def [symmetric]
      by (simp add: rules)
  next
    case 7
    then show ?thesis
      unfolding normalize_for_comparison_def df_copy_def alloc_def Let_def prod.case
        country_col_def [symmetric]
      by (simp add: rules)
  qed
qed

lemma normalize_for_comparison_country_KeyError:
  assumes "''Region'' \<in> set (columns (st ! r))" and "country_col b \<notin> set (columns (st ! r))"
  shows "normalize_for_comparison r b st = Inl (KeyError (country_col b))"
  using assms
  unfolding normalize_for_comparison_def df_copy_def alloc_def Let_def prod.case
    country_col_def [symmetric]
  by (simp add: assign_column_last get_column_present get_column_absent
    bind_err_Inr bind_err_Inl set_column_norm columns_add_key country_col_neq)

lemma normalize_for_comparison_InrD:
  assumes "normalize_for_comparison r b st = Inr (r', st')"
  shows "set (required_columns b) \<subseteq> set (columns (st ! r))
    \<and> r' = length st \<and> st' = st @ [normalized b (st ! r)]"
proof (cases "set (required_columns b) \<subseteq> set (columns (st ! r))")
  case True
  then show ?thesis using assms normalize_for_comparison_closed [of b st r] by simp
next
  case False
  then show ?thesis using assms normalize_for_comparison_KeyError [of b st r] by auto
qed

lemma find_matches_indices_InrD:
  assumes "find_matches_indices sd md st = Inr (res, st')" and "md < length st"
  shows "set (required_columns False) \<subseteq> set (columns (st ! sd))
     \<and> set (required_columns False) \<subseteq> set (columns (st ! md))"
proof -
  obtain r1 st1 where n1: "normalize_for_comparison sd False st = Inr (r1, st1)"
    using assms(1) unfolding find_matches_indices_def
    by (cases "normalize_for_comparison sd False st") (auto simp: bind_err_def)
  note d1 = normalize_for_comparison_InrD [OF n1]
  obtain r2 st2 where n2: "normalize_for_comparison md False st1 = Inr (r2, st2)"
    using assms(1) unfolding find_matches_indices_def n1
    by (cases "normalize_for_comparison md False st1") (auto simp: bind_err_def)
  note d2 = normalize_for_comparison_InrD [OF n2]
  have "st1 ! md = st ! md" using d1 assms(2) by (simp add: nth_append)
  then show ?thesis using d1 d2 by simp
qed

lemma find_matches_InrD:
  assumes "find_matches sd md st = Inr (res, st')" and "md < length st"
  shows "set (required_columns False) \<subseteq> set (columns (st ! sd))
     \<and> set (required_columns False) \<subseteq> set (columns (st ! md))"
proof -
  obtain x where "find_matches_indices sd md st = Inr x"
    using assms(1) unfolding find_matches_def
    by (cases "find_matches_indices sd md st") (auto simp: bind_err_def)
  then show ?thesis using find_matches_indices_InrD [of sd md st "fst x" "snd x"] assms(2) by simp
qed

section \<open>The matcher: evaluation on the example frames\<close>

lemma ex_refs: "0 < length ex_store" "Suc 0 < length ex_store"
  by (simp_all add: ex_store_def)

lemma ex_nth: "ex_store ! 0 = ex_candidates" "ex_store ! Suc 0 = ex_master"
  by (simp_all add: ex_store_def)

lemma ex_required:
  "set (required_columns False) \<subseteq> set (columns ex_candidates)"
  "set (required_columns False) \<subseteq> set (columns ex_master)"
  by (simp_all add: required_columns_def country_col_def ex_candidates_def ex_master_def
      ex_columns_def)

lemma ex_row_keys:
  "region_key (ex_row a b c d e f g) = norm_key (Some a)"
  "country_key False (ex_row a b c d e f g) = norm_key (Some b)"
  "brand_key (ex_row a b c d e f g) = norm_key (Some c)"
  "model_key (ex_row a b c d e f g) = clean_model_name (Some d)"
  "cpu_key (ex_row a b c d e f g) = norm_key (Some e)"
  "gpu_key (ex_row a b c d e f g) = norm_key (Some f)"
  "resolution_key (ex_row a b c d e f g) = norm_key (Some g)"
  by (simp_all add: ex_row_def cell_at_def region_key_def country_key_def country_col_def
      brand_key_def model_key_def cpu_key_def gpu_key_def resolution_key_def)

lemma ex_master_row_keys:
  "region_key ((''Country/territory'', v) # ex_row a b c d e f g) = norm_key (Some a)"
  "country_key False ((''Country/territory'', v) # ex_row a b c d e f g) = norm_key (Some b)"
  "brand_key ((''Country/territory'', v) # ex_row a b c d e f g) = norm_key (Some c)"
  "model_key ((''Country/territory'', v) # ex_row a b c d e f g) = clean_model_name (Some d)"
  "cpu_key ((''Country/territory'', v) # ex_row a b c d e f g) = norm_key (Some e)"
  "gpu_key ((''Country/territory'', v) # ex_row a b c d e f g) = norm_key (Some f)"
  "resolution_key ((''Country/territory'', v) # ex_row a b c d e f g) = norm_key (Some g)"
  "country_key True ((''Country/territory'', v) # ex_row a b c d e f g) = norm_key v"
  by (simp_all add: ex_row_def cell_at_def region_key_def country_key_def country_col_def
      brand_key_def model_key_def cpu_key_def gpu_key_def resolution_key_def)

lemma ex_norm_keys:
  "norm_key (Some ''EU'') = ''eu''" "norm_key (Some ''eu '') = ''eu''"
  "norm_key (Some ''US'') = ''us''"
  "norm_key (Some ''DE'') = ''de''" "norm_key (Some ''de'') = ''de''"
  "norm_key (Some ''Germany'') = ''germany''"
  "norm_key (Some ''Acer'') = ''acer''" "norm_key (Some ''acer'') = ''acer''"
  "norm_key (Some ''i5'') = ''i5''" "norm_key (Some ''I5'') = ''i5''"
  "norm_key (Some ''i7'') = ''i7''"
  "norm_key (Some ''RTX'') = ''rtx''" "norm_key (Some ''rtx'') = ''rtx''"
  "norm_key (Some ''FHD'') = ''fhd''" "norm_key (Some ''fhd'') = ''fhd''"
  "clean_model_name (Some ''ASPIRE-5'') = ''aspire 5''"
  "clean_model_name (Some ''Acer aspire 5'') = ''aspire 5''"
  by code_simp+

lemma ex_classification:
  "spec_classification (ex_row ''EU'' ''DE'' ''Acer'' ''ASPIRE-5'' ''i5'' ''RTX'' ''FHD'')
     (rows ex_master) = DUPLICATE"
  "spec_classification (ex_row ''EU'' ''DE'' ''Acer'' ''ASPIRE-5'' ''i7'' ''RTX'' ''FHD'')
     (rows ex_master) = NEW"
  "spec_classification (ex_row ''US'' ''DE'' ''Acer'' ''ASPIRE-5'' ''i5'' ''RTX'' ''FHD'')
     (rows ex_master) = NEW"
  by (simp_all add: ex_master_def spec_classification_def agree_rcb_def
      agree_model_def agree_specs_def ex_row_keys ex_master_row_keys ex_norm_keys)

lemma upt_3: "[0..<3] = [0, 1, 2]"
  by (simp add: upt_rec)

lemma ex_length: "length (rows ex_candidates) = 3"
  by (simp add: ex_candidates_def)

lemma ex_class_indices:
  "class_indices NEW (rows ex_candidates) (rows ex_master) = [1, 2]"
  "class_indices DUPLICATE (rows ex_candidates) (rows ex_master) = [0]"
  unfolding class_indices_def ex_length upt_3
  by (simp_all add: ex_candidates_def ex_classification)

lemma ex_find_matches:
  "find_matches 0 (Suc 0) ex_store =
     Inr ((4, 5), ex_store @ [normalized False ex_candidates, normalized False ex_master,
        selection NEW ex_candidates ex_master, selection DUPLICATE ex_candidates ex_master])"
  using find_matches_closed [OF ex_refs, unfolded ex_nth, OF ex_required]
  by (simp add: ex_store_def)

lemma set_class_indices:
  "set (class_indices k C M) = {i. i < length C \<and> spec_classification (C ! i) M = k}"
  by (auto simp: class_indices_def)

lemma class_indices_disjoint:
  "set (class_indices NEW C M) \<inter> set (class_indices DUPLICATE C M) = {}"
  by (auto simp: set_class_indices)

lemma class_indices_cover:
  "set (class_indices NEW C M) \<union> set (class_indices DUPLICATE C M) = {0..<length C}"
proof -
  have "k = NEW \<or> k = DUPLICATE" for k by (cases k) simp_all
  then show ?thesis by (auto simp: set_class_indices)
qed

lemma class_indices_sorted: "sorted_wrt (<) (class_indices k C M)"
  unfolding class_indices_def by (rule sorted_wrt_filter) simp

lemma class_indices_length:
  "length (class_indices NEW C M) + length (class_indices DUPLICATE C M) = length C"
proof -
  have "(k = DUPLICATE) = (k \<noteq> NEW)" for k by (cases k) simp_all
  then have "class_indices DUPLICATE C M
      = filter (\<lambda>i. \<not> spec_classification (C ! i) M = NEW) [0..<length C]"
    by (simp add: class_indices_def)
  then show ?thesis
    using sum_length_filter_compl [of "\<lambda>i. spec_classification (C ! i) M = NEW" "[0..<length C]"]
    by (simp add: class_indices_def)
qed

lemma spec_classification_variant:
  assumes "\<forall>m\<in>set M. agree_rcb m c \<and> agree_model m c \<longrightarrow> cpu_key m \<noteq> cpu_key c"
  shows "spec_classification c M = NEW"
  using assms by (auto simp: spec_classification_def list_ex_iff agree_specs_def)

lemma normalized_keys:
  assumes "i < length (rows D)"
  shows "cell_at (rows (normalized b D) ! i) ''region_norm'' = Some (region_key (rows D ! i))"
    "cell_at (rows (normalized b D) ! i) ''country_norm'' = Some (country_key b (rows D ! i))"
    "cell_at (rows (normalized b D) ! i) ''brand_norm'' = Some (brand_key (rows D ! i))"
    "cell_at (rows (normalized b D) ! i) ''model_clean'' = Some (model_key (rows D ! i))"
    "cell_at (rows (normalized b D) ! i) ''cpu_norm'' = Some (cpu_key (rows D ! i))"
    "cell_at (rows (normalized b D) ! i) ''gpu_norm'' = Some (gpu_key (rows D ! i))"
    "cell_at (rows (normalized b D) ! i) ''resolution_norm'' = Some (resolution_key (rows D ! i))"
  using assms by (simp_all add: rows_normalized norm_row_keys)

lemma norm_key_empty: "norm_key None = []" "norm_key (Some []) = []"
  by (simp_all add: norm_key_def lower_def strip_def)

lemma ex_rows_nth:
  "rows ex_candidates ! 0 = ex_row ''EU'' ''DE'' ''Acer'' ''ASPIRE-5'' ''i5'' ''RTX'' ''FHD''"
  "rows ex_candidates ! Suc 0 = ex_row ''EU'' ''DE'' ''Acer'' ''ASPIRE-5'' ''i7'' ''RTX'' ''FHD''"
  "rows ex_candidates ! 2 = ex_row ''US'' ''DE'' ''Acer'' ''ASPIRE-5'' ''i5'' ''RTX'' ''FHD''"
  by (simp_all add: ex_candidates_def)

lemma ex_master_rows:
  "rows ex_master = [(''Country/territory'', Some ''Germany'')
        # ex_row ''eu '' ''de'' ''acer'' ''Acer aspire 5'' ''I5'' ''rtx'' ''fhd'']"
  by (simp add: ex_master_def)

lemma ex_required_master: "set (required_columns True) \<subseteq> set (columns ex_master)"
  by (simp add: required_columns_def country_col_def ex_master_def ex_columns_def)

lemma ex_find_matches_indices:
  "find_matches_indices 0 (Suc 0) ex_store =
     Inr (([1, 2], [0]), ex_store @ [normalized False ex_candidates, normalized False ex_master])"
  using find_matches_indices_closed [OF ex_refs(2), of 0, unfolded ex_nth, OF ex_required]
  by (simp add: ex_class_indices)

lemma ex_territory_KeyError:
  "find_matches 0 (Suc 0) [ex_candidates, ex_master_territory] = Inl (KeyError ''Country'')"
proof -
  let ?st = "[ex_candidates, ex_master_territory]"
  let ?st1 = "?st @ [normalized False ex_candidates]"
  have n1: "normalize_for_comparison 0 False ?st = Inr (length ?st, ?st1)"
    using normalize_for_comparison_closed [of False ?st 0] ex_required(1) by simp
  have "normalize_for_comparison (Suc 0) False ?st1 = Inl (KeyError (country_col False))"
    by (rule normalize_for_comparison_country_KeyError)
       (simp_all add: ex_master_territory_def country_col_def)
  then have n2: "normalize_for_comparison (Suc 0) False ?st1 = Inl (KeyError ''Country'')"
    by (simp add: country_col_def)
  show ?thesis
    unfolding find_matches_def find_matches_indices_def n1 bind_err_Inr prod.case n2 bind_err_Inl ..
qed

lemma normalize_for_comparison_KeyError_column:
  assumes "\<not> set (required_columns b) \<subseteq> set (columns (st ! r))"
  shows "\<exists>c\<in>set (required_columns b).
     c \<notin> set (columns (st ! r)) \<and> normalize_for_comparison r b st = Inl (KeyError c)"
proof -
  let ?D = "st ! r"
  note rules = assign_column_last nth_append_length get_column_present get_column_absent
    bind_err_Inr bind_err_Inl set_column_norm set_column_clean columns_add_key
  note unf = normalize_for_comparison_def df_copy_def alloc_def Let_def prod.case
    country_col_def [symmetric]
  consider
      (1) "''Region'' \<notin> set (columns ?D)"
    | (2) "''Region'' \<in> set (columns ?D)" "country_col b \<notin> set (columns ?D)"
    | (3) "''Region'' \<in> set (columns ?D)" "country_col b \<in> set (columns ?D)"
          "''Brand'' \<notin> set (columns ?D)"
    | (4) "''Region'' \<in> set (columns ?D)" "country_col b \<in> set (columns ?D)"
          "''Brand'' \<in> set (columns ?D)" "''Model Name'' \<notin> set (columns ?D)"
    | (5) "''Region'' \<in> set (columns ?D)" "country_col b \<in> set (columns ?D)"
          "''Brand'' \<in> set (columns ?D)" "''Model Name'' \<in> set (columns ?D)"
          "''CPU Model'' \<notin> set (columns ?D)"
    | (6) "''Region'' \<in> set (columns ?D)" "country_col b \<in> set (columns ?D)"
          "''Brand'' \<in> set (columns ?D)" "''Model Name'' \<in> set (columns ?D)"
          "''CPU Model'' \<in> set (columns ?D)" "''GPU Model'' \<notin> set (columns ?D)"
    | (7) "''Region'' \<in> set (columns ?D)" "country_col b \<in> set (columns ?D)"
          "''Brand'' \<in> set (columns ?D)" "''Model Name'' \<in> set (columns ?D)"
          "''CPU Model'' \<in> set (columns ?D)" "''GPU Model'' \<in> set (columns ?D)"
          "''Resolution'' \<notin> set (columns ?D)"
    using assms by (auto simp: required_columns_def)
  then show ?thesis
  proof cases
    case 1
    then have "normalize_for_comparison r b st = Inl (KeyError ''Region'')"
      unfolding unf by (simp add: rules)
    with 1 show ?thesis by (simp add: required_columns_def)
  next
    case 2
    then have "normalize_for_comparison r b st = Inl (KeyError (country_col b))"
      unfolding unf by (simp add: rules country_col_neq)
    with 2 show ?thesis by (simp add: required_columns_def)
  next
    case 3
    then have "normalize_for_comparison r b st = Inl (KeyError ''Brand'')"
      unfolding unf by (simp add: rules)
    with 3 show ?thesis by (simp add: required_columns_def)
  next
    case 4
    then have "normalize_for_comparison r b st = Inl (KeyError ''Model Name'')"
      unfolding unf by (simp add: rules)
    with 4 show ?thesis by (simp add: required_columns_def)
  next
    case 5
    then have "normalize_for_comparison r b st = Inl (KeyError ''CPU Model'')"
      unfolding unf by (simp add: rules)
    with 5 show ?thesis by (simp add: required_columns_def)
  next
    case 6
    then have "normalize_for_comparison r b st = Inl (KeyError ''GPU Model'')"
      unfolding unf by (simp add: rules)
    with 6 show ?thesis by (simp add: required_columns_def)
  next
    case 7
    then have "normalize_for_comparison r b st = Inl (KeyError ''Resolution'')"
      unfolding unf by (simp add: rules)
    with 7 show ?thesis by (simp add: required_columns_def)
  qed
qed

lemma ex_no_cpu_missing:
  "\<not> set (required_columns False) \<subseteq> set (columns ex_no_cpu)"
  "c \<in> set (required_columns False) \<Longrightarrow> c \<notin> set (columns ex_no_cpu) \<Longrightarrow> c = ''CPU Model''"
  by (auto simp: required_columns_def country_col_def ex_no_cpu_def)

lemma ex_no_cpu_KeyError:
  "normalize_for_comparison 0 False (ex_no_cpu # st) = Inl (KeyError ''CPU Model'')"
  using normalize_for_comparison_KeyError_column [of False "ex_no_cpu # st" 0]
    ex_no_cpu_missing by auto

lemma ex_empty_cells_required:
  "set (required_columns False) \<subseteq> set (columns ex_empty_cells)"
  by (simp add: required_columns_def country_col_def ex_empty_cells_def ex_columns_def)

section \<open>The matcher: claims\<close>

text \<open>
  C1 (amended). \<open>normalize_for_comparison\<close> derives the country key from the field
  \<open>Country/territory\<close> when it is called with \<open>is_master=True\<close> and from the field \<open>Country\<close>
  otherwise. \<open>find_matches\<close> calls it with \<open>is_master=False\<close> for the candidate frame and for
  the master frame alike, so in the matcher both country keys are derived from \<open>Country\<close>:
  after the loop, the working copies of the candidate frame and of the master frame are the two
  newest objects of the store and their \<open>country_norm\<close> cells are the normalised \<open>Country\<close>
  cells of the inputs.
\<close>

theorem country_field_by_is_master_flag:
  "(set (required_columns is_master) \<subseteq> set (columns (st ! r)) \<longrightarrow>
      (\<exists>st'. normalize_for_comparison r is_master st = Inr (length st, st')
        \<and> (\<forall>i<length (rows (st ! r)).
             cell_at (rows (st' ! length st) ! i) ''country_norm''
               = Some (norm_key (cell_at (rows (st ! r) ! i)
                    (if is_master then ''Country/territory'' else ''Country''))))))
   \<and> (md < length st \<and> set (required_columns False) \<subseteq> set (columns (st ! sd))
        \<and> set (required_columns False) \<subseteq> set (columns (st ! md)) \<longrightarrow>
      (\<exists>res st'. find_matches_indices sd md st = Inr (res, st')
        \<and> (\<forall>i<length (rows (st ! sd)).
             cell_at (rows (st' ! length st) ! i) ''country_norm''
               = Some (norm_key (cell_at (rows (st ! sd) ! i) ''Country'')))
        \<and> (\<forall>j<length (rows (st ! md)).
             cell_at (rows (st' ! Suc (length st)) ! j) ''country_norm''
               = Some (norm_key (cell_at (rows (st ! md) ! j) ''Country'')))))"
proof -
  have 1: "\<exists>st'. normalize_for_comparison r is_master st = Inr (length st, st')
        \<and> (\<forall>i<length (rows (st ! r)).
             cell_at (rows (st' ! length st) ! i) ''country_norm''
               = Some (norm_key (cell_at (rows (st ! r) ! i)
                    (if is_master then ''Country/territory'' else ''Country''))))"
    if req: "set (required_columns is_master) \<subseteq> set (columns (st ! r))"
    unfolding normalize_for_comparison_closed [OF req]
    by (simp add: normalized_keys country_key_def country_col_def)
  have 2: "\<exists>res st'. find_matches_indices sd md st = Inr (res, st')
        \<and> (\<forall>i<length (rows (st ! sd)).
             cell_at (rows (st' ! length st) ! i) ''country_norm''
               = Some (norm_key (cell_at (rows (st ! sd) ! i) ''Country'')))
        \<and> (\<forall>j<length (rows (st ! md)).
             cell_at (rows (st' ! Suc (length st)) ! j) ''country_norm''
               = Some (norm_key (cell_at (rows (st ! md) ! j) ''Country'')))"
    if "md < length st" "set (required_columns False) \<subseteq> set (columns (st ! sd))"
      "set (required_columns False) \<subseteq> set (columns (st ! md))"
    unfolding find_matches_indices_closed [OF that]
    by (simp add: normalized_keys country_key_def country_col_def nth_append)
  from 1 2 show ?thesis by blast
qed

theorem country_field_by_is_master_flag_witness:
  "set (required_columns True) \<subseteq> set (columns (ex_store ! Suc 0))
   \<and> (\<exists>st'. normalize_for_comparison (Suc 0) True ex_store = Inr (length ex_store, st')
        \<and> cell_at (rows (st' ! length ex_store) ! 0) ''country_norm'' = Some ''germany'')
   \<and> Suc 0 < length ex_store
   \<and> set (required_columns False) \<subseteq> set (columns (ex_store ! 0))
   \<and> set (required_columns False) \<subseteq> set (columns (ex_store ! Suc 0))
   \<and> (\<exists>res st'. find_matches_indices 0 (Suc 0) ex_store = Inr (res, st')
        \<and> cell_at (rows (st' ! Suc (length ex_store)) ! 0) ''country_norm'' = Some ''de'')"
proof -
  have g: "norm_key (cell_at (rows ex_master ! 0) ''Country/territory'') = ''germany''"
    and d: "norm_key (cell_at (rows ex_master ! 0) ''Country'') = ''de''"
    by (simp_all add: ex_master_rows ex_row_def cell_at_def ex_norm_keys)
  have l: "0 < length (rows ex_master)" by (simp add: ex_master_rows)
  note t1 = country_field_by_is_master_flag [of True ex_store "Suc 0" "Suc 0" 0,
      unfolded ex_nth, THEN conjunct1, rule_format, OF ex_required_master]
  note t2 = country_field_by_is_master_flag [of True ex_store "Suc 0" "Suc 0" 0,
      unfolded ex_nth, THEN conjunct2, rule_format, OF conjI [OF ex_refs(2) conjI [OF ex_required]]]
  from t1 l g have a: "\<exists>st'. normalize_for_comparison (Suc 0) True ex_store = Inr (length ex_store, st')
        \<and> cell_at (rows (st' ! length ex_store) ! 0) ''country_norm'' = Some ''germany''"
    by auto
  from t2 l d have b: "\<exists>res st'. find_matches_indices 0 (Suc 0) ex_store = Inr (res, st')
        \<and> cell_at (rows (st' ! Suc (length ex_store)) ! 0) ''country_norm'' = Some ''de''"
    by auto
  from a b show ?thesis using ex_refs ex_required ex_required_master by (simp add: ex_nth)
qed

text \<open>
  The claim as written fails: with a master record whose \<open>Country/territory\<close> is \<open>Germany\<close> and
  whose \<open>Country\<close> is \<open>de\<close>, the matcher's master copy has the country key \<open>de\<close>, not
  \<open>germany\<close>, and the candidate with \<open>Country = DE\<close> is put on the duplicate list; with a
  master frame that has \<open>Country/territory\<close> but no \<open>Country\<close> column, \<open>find_matches\<close> raises
  \<open>KeyError('Country')\<close>.
\<close>

theorem master_country_key_counterexample:
  "find_matches_indices 0 (Suc 0) ex_store =
     Inr (([1, 2], [0]), ex_store @ [normalized False ex_candidates, normalized False ex_master])
   \<and> cell_at (rows (normalized False ex_master) ! 0) ''country_norm'' = Some ''de''
   \<and> norm_key (cell_at (rows ex_master ! 0) ''Country/territory'') = ''germany''
   \<and> find_matches 0 (Suc 0) [ex_candidates, ex_master_territory] = Inl (KeyError ''Country'')"
proof -
  have "cell_at (rows (normalized False ex_master) ! 0) ''country_norm'' = Some ''de''"
    by (simp add: normalized_keys ex_master_rows ex_master_row_keys ex_norm_keys)
  moreover have "norm_key (cell_at (rows ex_master ! 0) ''Country/territory'') = ''germany''"
    by (simp add: ex_master_rows cell_at_def ex_norm_keys)
  ultimately show ?thesis using ex_find_matches_indices ex_territory_KeyError by simp
qed

text \<open>
  C2. For every candidate record and master frame, the loop of \<open>find_matches\<close> puts the
  candidate's index on the list of new rows or on the list of duplicates as the three stages
  say (\<open>spec_classification\<close>): new when no master record agrees on the region, country and brand
  keys; otherwise new when none of those agrees on the model key; otherwise duplicate exactly
  when one of the model-matched records agrees on the CPU, GPU and resolution keys as well. The
  keys are those the matcher computes (both country keys from \<open>Country\<close>); the call returns
  whenever both frames have the columns it reads.
\<close>

theorem matcher_three_stage_classification:
  assumes "sd < length st" and "md < length st"
    and "set (required_columns False) \<subseteq> set (columns (st ! sd))"
    and "set (required_columns False) \<subseteq> set (columns (st ! md))"
  shows "\<exists>new dup st1.
      find_matches_indices sd md st = Inr ((new, dup), st1)
    \<and> (\<forall>i<length (rows (st ! sd)).
         (i \<in> set new \<longleftrightarrow> spec_classification (rows (st ! sd) ! i) (rows (st ! md)) = NEW)
       \<and> (i \<in> set dup \<longleftrightarrow> spec_classification (rows (st ! sd) ! i) (rows (st ! md)) = DUPLICATE))"
  unfolding find_matches_indices_closed [OF assms(2,3,4)]
  by (simp add: set_class_indices)

theorem matcher_three_stage_classification_witness:
  "0 < length ex_store \<and> Suc 0 < length ex_store
   \<and> set (required_columns False) \<subseteq> set (columns (ex_store ! 0))
   \<and> set (required_columns False) \<subseteq> set (columns (ex_store ! Suc 0))
   \<and> (\<exists>new dup st1. find_matches_indices 0 (Suc 0) ex_store = Inr ((new, dup), st1)
        \<and> 0 \<in> set dup \<and> 0 \<notin> set new \<and> Suc 0 \<in> set new \<and> 2 \<in> set new \<and> 2 \<notin> set dup)"
proof -
  from matcher_three_stage_classification [OF ex_refs, unfolded ex_nth, OF ex_required]
  obtain new dup st1 where f: "find_matches_indices 0 (Suc 0) ex_store = Inr ((new, dup), st1)"
    and c: "\<forall>i<length (rows ex_candidates).
         (i \<in> set new \<longleftrightarrow> spec_classification (rows ex_candidates ! i) (rows ex_master) = NEW)
       \<and> (i \<in> set dup \<longleftrightarrow> spec_classification (rows ex_candidates ! i) (rows ex_master) = DUPLICATE)"
    by blast
  from c [rule_format, of 0] c [rule_format, of "Suc 0"] c [rule_format, of 2]
  have "0 \<in> set dup \<and> 0 \<notin> set new \<and> Suc 0 \<in> set new \<and> 2 \<in> set new \<and> 2 \<notin> set dup"
    by (simp add: ex_length ex_rows_nth ex_classification)
  with f show ?thesis using ex_refs ex_required by (auto simp: ex_nth)
qed

text \<open>
  C3. The two outputs of \<open>find_matches\<close> partition the candidate frame: they hold the original
  candidate records at the positions of the two index lists of the loop, under the original
  columns; the two lists are disjoint, together they are all positions, each is strictly
  increasing (so every record is in exactly one output, once, in the original order), and the
  numbers of rows add up to the number of candidates.
\<close>

theorem find_matches_partition:
  assumes "sd < length st" and "md < length st"
    and "set (required_columns False) \<subseteq> set (columns (st ! sd))"
    and "set (required_columns False) \<subseteq> set (columns (st ! md))"
  shows "\<exists>new dup st1 nr dr st'.
      find_matches_indices sd md st = Inr ((new, dup), st1)
    \<and> find_matches sd md st = Inr ((nr, dr), st')
    \<and> rows (st' ! nr) = map (\<lambda>i. rows (st ! sd) ! i) new
    \<and> rows (st' ! dr) = map (\<lambda>i. rows (st ! sd) ! i) dup
    \<and> columns (st' ! nr) = columns (st ! sd)
    \<and> columns (st' ! dr) = columns (st ! sd)
    \<and> length (rows (st' ! nr)) + length (rows (st' ! dr)) = length (rows (st ! sd))
    \<and> set new \<inter> set dup = {}
    \<and> set new \<union> set dup = {0..<length (rows (st ! sd))}
    \<and> sorted_wrt (<) new \<and> sorted_wrt (<) dup"
proof -
  let ?C = "rows (st ! sd)" and ?M = "rows (st ! md)"
  let ?new = "class_indices NEW ?C ?M" and ?dup = "class_indices DUPLICATE ?C ?M"
  let ?st' = "st @ [normalized False (st ! sd), normalized False (st ! md),
      selection NEW (st ! sd) (st ! md), selection DUPLICATE (st ! sd) (st ! md)]"
  have n: "?st' ! (length st + 2) = selection NEW (st ! sd) (st ! md)"
    and d: "?st' ! (length st + 3) = selection DUPLICATE (st ! sd) (st ! md)"
    by (simp_all add: nth_append)
  have "find_matches_indices sd md st
      = Inr ((?new, ?dup), st @ [normalized False (st ! sd), normalized False (st ! md)])"
    by (rule find_matches_indices_closed [OF assms(2,3,4)])
  moreover have "find_matches sd md st = Inr ((length st + 2, length st + 3), ?st')"
    by (rule find_matches_closed [OF assms])
  moreover have "rows (?st' ! (length st + 2)) = map (\<lambda>i. ?C ! i) ?new"
    "rows (?st' ! (length st + 3)) = map (\<lambda>i. ?C ! i) ?dup"
    "columns (?st' ! (length st + 2)) = columns (st ! sd)"
    "columns (?st' ! (length st + 3)) = columns (st ! sd)"
    unfolding n d by (simp_all add: selection_def)
  moreover have "length (rows (?st' ! (length st + 2))) + length (rows (?st' ! (length st + 3)))
      = length ?C"
    unfolding n d by (simp add: selection_def class_indices_length)
  ultimately show ?thesis
    using class_indices_disjoint [of ?C ?M] class_indices_cover [of ?C ?M]
      class_indices_sorted [of NEW ?C ?M] class_indices_sorted [of DUPLICATE ?C ?M]
    by blast
qed

theorem find_matches_partition_witness:
  "0 < length ex_store \<and> Suc 0 < length ex_store
   \<and> set (required_columns False) \<subseteq> set (columns (ex_store ! 0))
   \<and> set (required_columns False) \<subseteq> set (columns (ex_store ! Suc 0))
   \<and> (\<exists>nr dr st'. find_matches 0 (Suc 0) ex_store = Inr ((nr, dr), st')
        \<and> rows (st' ! nr) = map (\<lambda>i. rows ex_candidates ! i) [1, 2]
        \<and> rows (st' ! dr) = map (\<lambda>i. rows ex_candidates ! i) [0]
        \<and> columns (st' ! nr) = columns ex_candidates
        \<and> columns (st' ! dr) = columns ex_candidates
        \<and> length (rows (st' ! nr)) + length (rows (st' ! dr)) = length (rows ex_candidates))"
proof -
  from find_matches_partition [OF ex_refs, unfolded ex_nth, OF ex_required]
  obtain new dup st1 nr dr st' where
    "find_matches_indices 0 (Suc 0) ex_store = Inr ((new, dup), st1)"
    "find_matches 0 (Suc 0) ex_store = Inr ((nr, dr), st')"
    "rows (st' ! nr) = map (\<lambda>i. rows ex_candidates ! i) new"
    "rows (st' ! dr) = map (\<lambda>i. rows ex_candidates ! i) dup"
    "columns (st' ! nr) = columns ex_candidates"
    "columns (st' ! dr) = columns ex_candidates"
    "length (rows (st' ! nr)) + length (rows (st' ! dr)) = length (rows ex_candidates)"
    by blast
  moreover from this(1) have "new = [1, 2]" "dup = [0]"
    by (simp_all add: ex_find_matches_indices)
  ultimately show ?thesis using ex_refs ex_required by (auto simp: ex_nth)
qed

text \<open>
  C7. A candidate that agrees with some master record on the region, country, brand and model
  keys, and whose CPU key differs from that of every such master record, is put on the list of
  new rows and not on the list of duplicates.
\<close>

theorem variant_classified_new:
  assumes "sd < length st" and "md < length st"
    and "set (required_columns False) \<subseteq> set (columns (st ! sd))"
    and "set (required_columns False) \<subseteq> set (columns (st ! md))"
    and "i < length (rows (st ! sd))"
    and "\<exists>m\<in>set (rows (st ! md)). agree_rcb m (rows (st ! sd) ! i) \<and> agree_model m (rows (st ! sd) ! i)"
    and "\<forall>m\<in>set (rows (st ! md)).
           agree_rcb m (rows (st ! sd) ! i) \<and> agree_model m (rows (st ! sd) ! i)
             \<longrightarrow> cpu_key m \<noteq> cpu_key (rows (st ! sd) ! i)"
  shows "\<exists>new dup st1.
      find_matches_indices sd md st = Inr ((new, dup), st1) \<and> i \<in> set new \<and> i \<notin> set dup"
  unfolding find_matches_indices_closed [OF assms(2,3,4)]
  using assms(5) spec_classification_variant [OF assms(7)]
  by (simp add: set_class_indices)

theorem variant_classified_new_witness:
  "agree_rcb (rows ex_master ! 0) (rows ex_candidates ! Suc 0)
   \<and> agree_model (rows ex_master ! 0) (rows ex_candidates ! Suc 0)
   \<and> cpu_key (rows ex_master ! 0) \<noteq> cpu_key (rows ex_candidates ! Suc 0)
   \<and> (\<exists>new dup st1. find_matches_indices 0 (Suc 0) ex_store = Inr ((new, dup), st1)
        \<and> Suc 0 \<in> set new \<and> Suc 0 \<notin> set dup)"
proof -
  have k: "agree_rcb (rows ex_master ! 0) (rows ex_candidates ! Suc 0)"
    "agree_model (rows ex_master ! 0) (rows ex_candidates ! Suc 0)"
    "cpu_key (rows ex_master ! 0) \<noteq> cpu_key (rows ex_candidates ! Suc 0)"
    by (simp_all add: ex_master_rows ex_rows_nth agree_rcb_def agree_model_def ex_row_keys
        ex_master_row_keys ex_norm_keys)
  have i: "Suc 0 < length (rows ex_candidates)" by (simp add: ex_length)
  have e: "\<exists>m\<in>set (rows ex_master). agree_rcb m (rows ex_candidates ! Suc 0)
      \<and> agree_model m (rows ex_candidates ! Suc 0)"
    using k by (simp add: ex_master_rows)
  have a: "\<forall>m\<in>set (rows ex_master).
      agree_rcb m (rows ex_candidates ! Suc 0) \<and> agree_model m (rows ex_candidates ! Suc 0)
        \<longrightarrow> cpu_key m \<noteq> cpu_key (rows ex_candidates ! Suc 0)"
    using k by (simp add: ex_master_rows)
  from variant_classified_new [OF ex_refs, unfolded ex_nth, OF ex_required i e a] k
  show ?thesis by simp
qed

text \<open>
  C8 (amended). The normalisers are total on the values of the fields they read: the generic
  normaliser and the model-name cleaner return one key per cell, and the key of a missing
  (\<open>None\<close>) or empty cell is the empty text. On a frame that has the columns read,
  \<open>normalize_for_comparison\<close> returns for any cell values, and each of the seven keys is the
  empty text where its field is missing or empty. On a frame that lacks one of the columns
  read, \<open>normalize_for_comparison\<close> raises \<open>KeyError\<close> for a column the frame lacks. Empty
  keys compare equal like any other text.
\<close>

theorem normalizers_total_on_values:
  "length (normalize_series s) = length s \<and> length (apply_clean_model_name s) = length s
   \<and> (i < length s \<and> (s ! i = None \<or> s ! i = Some []) \<longrightarrow>
        normalize_series s ! i = Some [] \<and> apply_clean_model_name s ! i = Some [])
   \<and> (set (required_columns b) \<subseteq> set (columns (st ! r)) \<longrightarrow>
        (\<exists>st'. normalize_for_comparison r b st = Inr (length st, st')
          \<and> (\<forall>j<length (rows (st ! r)). \<forall>(f, k)\<in>set (key_fields b).
                cell_at (rows (st ! r) ! j) f = None \<or> cell_at (rows (st ! r) ! j) f = Some []
                \<longrightarrow> cell_at (rows (st' ! length st) ! j) k = Some [])))
   \<and> (\<not> set (required_columns b) \<subseteq> set (columns (st ! r)) \<longrightarrow>
        (\<exists>c\<in>set (required_columns b). c \<notin> set (columns (st ! r))
          \<and> normalize_for_comparison r b st = Inl (KeyError c)))
   \<and> cell_eq (Some []) (Some [])"
proof -
  have 1: "length (normalize_series s) = length s \<and> length (apply_clean_model_name s) = length s"
    by (simp add: normalize_series_map apply_clean_model_name_def)
  have 2: "normalize_series s ! i = Some [] \<and> apply_clean_model_name s ! i = Some []"
    if "i < length s" "s ! i = None \<or> s ! i = Some []"
    using that
    by (auto simp: normalize_series_map apply_clean_model_name_def norm_key_empty clean_None
        clean_empty)
  have 3: "\<exists>st'. normalize_for_comparison r b st = Inr (length st, st')
          \<and> (\<forall>j<length (rows (st ! r)). \<forall>(f, k)\<in>set (key_fields b).
                cell_at (rows (st ! r) ! j) f = None \<or> cell_at (rows (st ! r) ! j) f = Some []
                \<longrightarrow> cell_at (rows (st' ! length st) ! j) k = Some [])"
    if req: "set (required_columns b) \<subseteq> set (columns (st ! r))"
  proof -
    have "cell_at (rows (normalized b (st ! r)) ! j) k = Some []"
      if "j < length (rows (st ! r))" "(f, k) \<in> set (key_fields b)"
        "cell_at (rows (st ! r) ! j) f = None \<or> cell_at (rows (st ! r) ! j) f = Some []"
      for j f k
      using that(2,3) normalized_keys [OF that(1), of b]
      by (auto simp: key_fields_def region_key_def country_key_def brand_key_def model_key_def
          cpu_key_def gpu_key_def resolution_key_def norm_key_empty clean_None clean_empty)
    then show ?thesis
      unfolding normalize_for_comparison_closed [OF req] by auto
  qed
  have 4: "\<exists>c\<in>set (required_columns b). c \<notin> set (columns (st ! r))
          \<and> normalize_for_comparison r b st = Inl (KeyError c)"
    if "\<not> set (required_columns b) \<subseteq> set (columns (st ! r))"
    using that by (rule normalize_for_comparison_KeyError_column)
  have 5: "cell_eq (Some []) (Some [])" by (simp add: cell_eq_Some)
  from 1 2 3 4 5 show ?thesis by blast
qed

theorem normalizers_total_on_values_witness:
  "normalize_series [None, Some []] ! 0 = Some []
   \<and> apply_clean_model_name [None, Some []] ! 0 = Some []
   \<and> set (required_columns False) \<subseteq> set (columns ([ex_empty_cells] ! 0))
   \<and> cell_at (rows ([ex_empty_cells] ! 0) ! 0) ''CPU Model'' = None
   \<and> cell_at (rows ([ex_empty_cells] ! 0) ! 0) ''GPU Model'' = Some []
   \<and> (\<exists>st'. normalize_for_comparison 0 False [ex_empty_cells] = Inr (length [ex_empty_cells], st')
        \<and> cell_at (rows (st' ! length [ex_empty_cells]) ! 0) ''cpu_norm'' = Some []
        \<and> cell_at (rows (st' ! length [ex_empty_cells]) ! 0) ''gpu_norm'' = Some [])
   \<and> normalize_for_comparison 0 False [ex_no_cpu] = Inl (KeyError ''CPU Model'')"
proof -
  have req: "set (required_columns False) \<subseteq> set (columns ([ex_empty_cells] ! 0))"
    by (simp add: ex_empty_cells_required)
  have v: "cell_at (rows ([ex_empty_cells] ! 0) ! 0) ''CPU Model'' = None"
    "cell_at (rows ([ex_empty_cells] ! 0) ! 0) ''GPU Model'' = Some []"
    by (simp_all add: ex_empty_cells_def cell_at_def)
  note t = normalizers_total_on_values [of "[None, Some []]" 0 False "[ex_empty_cells]" 0]
  note u = normalizers_total_on_values [of "[]" 0 False "[ex_no_cpu]" 0]
  from t have 1: "normalize_series [None, Some []] ! 0 = Some []
      \<and> apply_clean_model_name [None, Some []] ! 0 = Some []" by simp
  from t req obtain st' where
    n: "normalize_for_comparison 0 False [ex_empty_cells] = Inr (length [ex_empty_cells], st')"
    and a: "\<forall>j<length (rows ([ex_empty_cells] ! 0)). \<forall>(f, k)\<in>set (key_fields False).
                cell_at (rows ([ex_empty_cells] ! 0) ! j) f = None
                  \<or> cell_at (rows ([ex_empty_cells] ! 0) ! j) f = Some []
                \<longrightarrow> cell_at (rows (st' ! length [ex_empty_cells]) ! j) k = Some []"
    by blast
  have l: "0 < length (rows ([ex_empty_cells] ! 0))" by (simp add: ex_empty_cells_def)
  have k: "(''CPU Model'', ''cpu_norm'') \<in> set (key_fields False)"
    "(''GPU Model'', ''gpu_norm'') \<in> set (key_fields False)"
    by (simp_all add: key_fields_def)
  from a [rule_format, OF l k(1)] v(1)
  have c: "cell_at (rows (st' ! length [ex_empty_cells]) ! 0) ''cpu_norm'' = Some []" by simp
  from a [rule_format, OF l k(2)] v(2)
  have g: "cell_at (rows (st' ! length [ex_empty_cells]) ! 0) ''gpu_norm'' = Some []" by simp
  have m: "\<not> set (required_columns False) \<subseteq> set (columns ([ex_no_cpu] ! 0))"
    using ex_no_cpu_missing(1) by simp
  from u m obtain c where "c \<in> set (required_columns False)" "c \<notin> set (columns ([ex_no_cpu] ! 0))"
    "normalize_for_comparison 0 False [ex_no_cpu] = Inl (KeyError c)" by blast
  then have e: "normalize_for_comparison 0 False [ex_no_cpu] = Inl (KeyError ''CPU Model'')"
    using ex_no_cpu_missing(2) [of c] by simp
  from 1 req v n c g e show ?thesis by blast
qed

text \<open>
  The claim as written fails for an absent field: in a frame without a \<open>CPU Model\<close> column
  the records have no such field, and \<open>normalize_for_comparison\<close>, and with it
  \<open>find_matches\<close>, raises \<open>KeyError('CPU Model')\<close> instead of giving the empty key.
\<close>

theorem absent_column_raises_counterexample:
  "cell_at (rows ex_no_cpu ! 0) ''CPU Model'' = None
   \<and> ''CPU Model'' \<notin> set (columns ex_no_cpu)
   \<and> normalize_for_comparison 0 False [ex_no_cpu, ex_master] = Inl (KeyError ''CPU Model'')
   \<and> find_matches 0 (Suc 0) [ex_no_cpu, ex_master] = Inl (KeyError ''CPU Model'')"
proof -
  have n: "normalize_for_comparison 0 False [ex_no_cpu, ex_master] = Inl (KeyError ''CPU Model'')"
    by (rule ex_no_cpu_KeyError)
  have f: "find_matches 0 (Suc 0) [ex_no_cpu, ex_master] = Inl (KeyError ''CPU Model'')"
    unfolding find_matches_def find_matches_indices_def n bind_err_Inl ..
  have "cell_at (rows ex_no_cpu ! 0) ''CPU Model'' = None"
    "''CPU Model'' \<notin> set (columns ex_no_cpu)"
    by (simp_all add: ex_no_cpu_def cell_at_def)
  with n f show ?thesis by simp
qed

text \<open>
  C9. Normalisation works on a copy and the matcher changes no object it was given:
  \<open>normalize_for_comparison\<close> returns a reference to a fresh object and leaves every object
  of the store as it was; after \<open>find_matches\<close> returns, the candidate frame and the master
  frame (and every other object that existed before the call) are unchanged, and the two
  outputs are fresh objects.
\<close>

theorem find_matches_preserves_inputs:
  "(normalize_for_comparison r b st = Inr (r', st1) \<longrightarrow>
      r' = length st \<and> take (length st) st1 = st)
   \<and> (find_matches sd md st = Inr ((nr, dr), st') \<and> sd < length st \<and> md < length st \<longrightarrow>
      st' ! sd = st ! sd \<and> st' ! md = st ! md \<and> take (length st) st' = st
      \<and> length st \<le> nr \<and> length st \<le> dr)"
proof -
  have 1: "r' = length st \<and> take (length st) st1 = st"
    if "normalize_for_comparison r b st = Inr (r', st1)"
    using normalize_for_comparison_InrD [OF that] by simp
  have 2: "st' ! sd = st ! sd \<and> st' ! md = st ! md \<and> take (length st) st' = st
      \<and> length st \<le> nr \<and> length st \<le> dr"
    if f: "find_matches sd md st = Inr ((nr, dr), st')" and s: "sd < length st" and m: "md < length st"
  proof -
    note req = find_matches_InrD [OF f m]
    have "find_matches sd md st = Inr ((length st + 2, length st + 3),
          st @ [normalized False (st ! sd), normalized False (st ! md),
                selection NEW (st ! sd) (st ! md), selection DUPLICATE (st ! sd) (st ! md)])"
      using req by (intro find_matches_closed s m) simp_all
    with f s m show ?thesis by (auto simp: nth_append)
  qed
  from 1 2 show ?thesis by blast
qed

theorem find_matches_preserves_inputs_witness:
  "0 < length ex_store \<and> Suc 0 < length ex_store
   \<and> (\<exists>nr dr st'. find_matches 0 (Suc 0) ex_store = Inr ((nr, dr), st')
        \<and> st' ! 0 = ex_candidates \<and> st' ! Suc 0 = ex_master \<and> take 2 st' = ex_store)
   \<and> (\<exists>r' st1. normalize_for_comparison 0 False ex_store = Inr (r', st1)
        \<and> r' = 2 \<and> take 2 st1 = ex_store \<and> st1 ! r' \<noteq> ex_candidates)"
proof -
  have l: "length ex_store = 2" by (simp add: ex_store_def)
  have n: "normalize_for_comparison 0 False ex_store
      = Inr (length ex_store, ex_store @ [normalized False ex_candidates])"
    using normalize_for_comparison_closed [of False ex_store 0] ex_required(1)
    by (simp add: ex_nth)
  have c: "normalized False ex_candidates \<noteq> ex_candidates"
  proof
    assume "normalized False ex_candidates = ex_candidates"
    then have "set (columns (normalized False ex_candidates)) = set (columns ex_candidates)"
      by simp
    moreover have "''region_norm'' \<in> set (columns (normalized False ex_candidates))"
      by (simp add: normalized_def columns_add_key)
    moreover have "''region_norm'' \<notin> set (columns ex_candidates)"
      by (simp add: ex_candidates_def ex_columns_def)
    ultimately show False by blast
  qed
  note t = find_matches_preserves_inputs [of 0 False ex_store "length ex_store"
      "ex_store @ [normalized False ex_candidates]" 0 "Suc 0" 4 5
      "ex_store @ [normalized False ex_candidates, normalized False ex_master,
        selection NEW ex_candidates ex_master, selection DUPLICATE ex_candidates ex_master]"]
  from t n ex_find_matches ex_refs
  have "(ex_store @ [normalized False ex_candidates, normalized False ex_master,
        selection NEW ex_candidates ex_master, selection DUPLICATE ex_candidates ex_master]) ! 0
        = ex_store ! 0" by blast
  with n ex_find_matches ex_refs c show ?thesis
    by (simp add: l ex_nth) (simp add: ex_store_def)
qed

end
